theory Spec2Isabelle
  imports Main "HOL-Library.Word"
begin

section \<open>Types and constants of merkle\_tree.hpp\<close>

text \<open>
  \<open>std::size_t\<close> is modelled as a 64-bit word (an LP64 platform): \<open>+\<close>, \<open>-\<close> and
  \<open>*\<close> wrap around as unsigned arithmetic does in C++. \<open>hash_t\<close> is \<open>std::size_t\<close>.
\<close>

type_synonym size_t = "64 word"
type_synonym hash_t = "64 word"

text \<open>\<open>static constexpr int treeHeight = 5\<close> and \<open>treeCapacity = 1 << treeHeight\<close>.\<close>

definition treeHeight :: size_t where
  "treeHeight = 5"

definition treeCapacity :: size_t where
  "treeCapacity = push_bit (unat treeHeight) 1"

text \<open>
  The two hash functions the code calls, \<open>std::hash<std::string>\<close> and
  \<open>std::hash<hash_t>\<close>, are implementation-defined in C++. They are parameters of every
  definition that hashes: \<open>sh\<close> hashes a string, \<open>wh\<close> hashes a \<open>hash_t\<close>.
\<close>

type_synonym string_hash = "string \<Rightarrow> hash_t"
type_synonym word_hash = "hash_t \<Rightarrow> hash_t"

text \<open>
  The three exceptions of merkle\_tree\_exceptions.hpp. \<open>UndefinedBehaviour\<close> stands for
  an access to a \<open>std::array\<close> outside its bounds, which the C++ code does not check.
\<close>

datatype error =
    MerkleTreeFullException
  | MerkleNodeIndexOutOfRangeException
  | MerkleTreeEmptyException
  | UndefinedBehaviour

section \<open>MerkleNode: addresses of nodes\<close>

record MerkleNode =
  level :: size_t
  index :: size_t

definition getIndex :: "MerkleNode \<Rightarrow> size_t" where
  "getIndex node = index node"

definition isLeaf :: "MerkleNode \<Rightarrow> bool" where
  "isLeaf node \<longleftrightarrow> level node = treeHeight"

definition getLeftChild :: "MerkleNode \<Rightarrow> MerkleNode" where
  "getLeftChild node = \<lparr>level = level node + 1, index = 2 * index node\<rparr>"

definition getRightChild :: "MerkleNode \<Rightarrow> MerkleNode" where
  "getRightChild node = \<lparr>level = level node + 1, index = 2 * index node + 1\<rparr>"

definition getSiblingNode :: "MerkleNode \<Rightarrow> MerkleNode" where
  "getSiblingNode node =
     (if index node mod 2 = 0 then \<lparr>level = level node, index = index node + 1\<rparr>
      else \<lparr>level = level node, index = index node - 1\<rparr>)"

text \<open>
  The loop of \<open>getPathFromLeafToRoot\<close>: \<open>pathNodeLevel\<close> runs from \<open>treeHeight\<close> down
  to 1, the node is stored at position \<open>treeHeight - pathNodeLevel\<close> of the array and the
  index is halved. The loop is only entered with \<open>pathNodeLevel = treeHeight\<close>, so the
  position written is always one of 0..4 of the array of \<open>treeHeight\<close> nodes.
\<close>

function pathLoop :: "size_t \<Rightarrow> size_t \<Rightarrow> MerkleNode list \<Rightarrow> MerkleNode list" where
  "pathLoop pathNodeLevel pathNodeIndex path =
     (if pathNodeLevel > 0
      then pathLoop (pathNodeLevel - 1) (pathNodeIndex div 2)
             (path[unat (treeHeight - pathNodeLevel) :=
                     \<lparr>level = pathNodeLevel, index = pathNodeIndex\<rparr>])
      else path)"
  by pat_completeness auto
termination
proof (relation "measure (\<lambda>(l, i, p). unat l)")
  show "wf (measure (\<lambda>(l, i, p). unat l))"
    by simp
next
  fix pathNodeLevel pathNodeIndex :: size_t and path :: "MerkleNode list"
  assume "0 < pathNodeLevel"
  then have nz: "pathNodeLevel \<noteq> 0"
    by (simp add: word_gt_0)
  then have "0 < unat pathNodeLevel"
    by (simp add: unat_gt_0)
  with nz have "unat (pathNodeLevel - 1) < unat pathNodeLevel"
    by (simp add: unat_minus_one)
  then show "((pathNodeLevel - 1, pathNodeIndex div 2,
        path[unat (treeHeight - pathNodeLevel) :=
               \<lparr>level = pathNodeLevel, index = pathNodeIndex\<rparr>]),
       (pathNodeLevel, pathNodeIndex, path)) \<in> measure (\<lambda>(l, i, p). unat l)"
    by simp
qed

declare pathLoop.simps [simp del]

text \<open>\<open>std::array<MerkleNode, treeHeight> path = {}\<close> holds default nodes (0, 0).\<close>

definition getPathFromLeafToRoot :: "MerkleNode \<Rightarrow> MerkleNode list" where
  "getPathFromLeafToRoot node =
     pathLoop treeHeight (index node)
       (replicate (unat treeHeight) \<lparr>level = 0, index = 0\<rparr>)"

section \<open>MerkleTree\<close>

record MerkleTree =
  currentRootHash :: hash_t
  currentTreeSize :: size_t
  treeLeafNodes :: "hash_t list"

text \<open>The default member initialisers: root hash 0, size 0, all leaves 0.\<close>

definition construct :: MerkleTree where
  "construct = \<lparr>currentRootHash = 0, currentTreeSize = 0,
                treeLeafNodes = replicate (unat treeCapacity) 0\<rparr>"

definition isFull :: "MerkleTree \<Rightarrow> bool" where
  "isFull t \<longleftrightarrow> currentTreeSize t = treeCapacity"

definition isEmpty :: "MerkleTree \<Rightarrow> bool" where
  "isEmpty t \<longleftrightarrow> currentTreeSize t = 0"

text \<open>
  The hash of a parent from the hashes of its children: both \<open>getNodeHash\<close> and
  \<open>verifyProof\<close> compute \<open>std::hash<hash_t>()(a + b)\<close>, the hash of the (wrapping)
  sum of the two values.
\<close>

definition combine :: "word_hash \<Rightarrow> hash_t \<Rightarrow> hash_t \<Rightarrow> hash_t" where
  "combine wh a b = wh (a + b)"

text \<open>
  \<open>getNodeHash\<close>: the stored leaf for a leaf node, otherwise the hash of the sum of the
  two children's hashes. The recursion ends because \<open>treeHeight - level\<close> (as an
  unsigned value) drops by one in every call.
\<close>

function getNodeHash :: "word_hash \<Rightarrow> MerkleTree \<Rightarrow> MerkleNode \<Rightarrow> error + hash_t" where
  "getNodeHash wh t node =
     (if isLeaf node then
        (if unat (getIndex node) < length (treeLeafNodes t)
         then Inr (treeLeafNodes t ! unat (getIndex node))
         else Inl UndefinedBehaviour)
      else
        (case getNodeHash wh t (getLeftChild node) of
           Inl e \<Rightarrow> Inl e
         | Inr leftChildHash \<Rightarrow>
             (case getNodeHash wh t (getRightChild node) of
                Inl e \<Rightarrow> Inl e
              | Inr rightChildHash \<Rightarrow> Inr (combine wh leftChildHash rightChildHash))))"
  by pat_completeness auto
termination
proof (relation "measure (\<lambda>(wh, t, node). unat (treeHeight - level node))")
  show "wf (measure (\<lambda>(wh, t, node). unat (treeHeight - level node)))"
    by simp
next
  fix wh :: word_hash and t :: MerkleTree and node :: MerkleNode
  assume "\<not> isLeaf node"
  then have nz: "treeHeight - level node \<noteq> 0"
    by (simp add: isLeaf_def)
  have "unat (treeHeight - level node - 1) = unat (treeHeight - level node) - 1"
    using nz by (rule unat_minus_one)
  moreover have "0 < unat (treeHeight - level node)"
    using nz by (simp only: unat_gt_0 not_False_eq_True)
  moreover have "treeHeight - (level node + 1) = treeHeight - level node - 1"
    by simp
  ultimately have "unat (treeHeight - (level node + 1)) < unat (treeHeight - level node)"
    by (simp only: diff_less zero_less_one)
  then show "((wh, t, getLeftChild node), (wh, t, node))
      \<in> measure (\<lambda>(wh, t, node). unat (treeHeight - level node))"
    by (simp add: getLeftChild_def)
  then show "\<And>x. ((wh, t, getRightChild node), (wh, t, node))
      \<in> measure (\<lambda>(wh, t, node). unat (treeHeight - level node))"
    by (simp add: getLeftChild_def getRightChild_def)
qed

declare getNodeHash.simps [simp del]

text \<open>
  \<open>addHashOf\<close> returns the outcome together with the tree after the call. The exception
  is thrown before anything is written, so the tree is then the one given. The write
  \<open>treeLeafNodes[currentTreeSize]\<close> is inside the array only when
  \<open>currentTreeSize < treeCapacity\<close>.
\<close>

definition addHashOf ::
  "string_hash \<Rightarrow> word_hash \<Rightarrow> string \<Rightarrow> MerkleTree \<Rightarrow> (error + unit) \<times> MerkleTree" where
  "addHashOf sh wh d t =
     (if isFull t then (Inl MerkleTreeFullException, t)
      else
        (let dataHash = sh d in
         if unat (currentTreeSize t) < length (treeLeafNodes t) then
           (let t1 = t\<lparr>treeLeafNodes := (treeLeafNodes t)[unat (currentTreeSize t) := dataHash]\<rparr>;
                t2 = t1\<lparr>currentTreeSize := currentTreeSize t1 + 1\<rparr>
            in case getNodeHash wh t2 \<lparr>level = 0, index = 0\<rparr> of
                 Inl e \<Rightarrow> (Inl e, t2)
               | Inr h \<Rightarrow> (Inr (), t2\<lparr>currentRootHash := h\<rparr>))
         else (Inl UndefinedBehaviour, t)))"

definition getRootHash :: "MerkleTree \<Rightarrow> error + hash_t" where
  "getRootHash t =
     (if isEmpty t then Inl MerkleTreeEmptyException else Inr (currentRootHash t))"

text \<open>
  The loop of \<open>generateProof\<close> over the path, in the order of the array: the hash of the
  sibling of each node.
\<close>

fun siblingHashes :: "word_hash \<Rightarrow> MerkleTree \<Rightarrow> MerkleNode list \<Rightarrow> error + hash_t list" where
  "siblingHashes wh t [] = Inr []"
| "siblingHashes wh t (pathNode # rest) =
     (case getNodeHash wh t (getSiblingNode pathNode) of
        Inl e \<Rightarrow> Inl e
      | Inr h \<Rightarrow>
          (case siblingHashes wh t rest of
             Inl e \<Rightarrow> Inl e
           | Inr hs \<Rightarrow> Inr (h # hs)))"

definition generateProof :: "word_hash \<Rightarrow> MerkleTree \<Rightarrow> size_t \<Rightarrow> error + hash_t list" where
  "generateProof wh t leafNodeIndex =
     (if isEmpty t then Inl MerkleTreeEmptyException
      else if leafNodeIndex \<ge> currentTreeSize t then Inl MerkleNodeIndexOutOfRangeException
      else
        (let leafNode = \<lparr>level = treeHeight, index = leafNodeIndex\<rparr>;
             pathFromLeafToRoot = getPathFromLeafToRoot leafNode
         in siblingHashes wh t pathFromLeafToRoot))"

text \<open>
  \<open>verifyProof\<close>: starting from the hash of the data, each hash of the proof is combined
  into the computed hash, in the order of the array; the result is compared with the root.
\<close>

definition verifyProof :: "string_hash \<Rightarrow> word_hash \<Rightarrow> hash_t \<Rightarrow> hash_t list \<Rightarrow> string \<Rightarrow> bool" where
  "verifyProof sh wh rootHash pf d \<longleftrightarrow>
     foldl (\<lambda>computedHash proofHash. combine wh computedHash proofHash) (sh d) pf = rootHash"

section \<open>Trees built by appending\<close>

text \<open>
  \<open>addAll\<close> calls \<open>addHashOf\<close> for each item of a list in order on a tree, and stops
  at the first call that fails, as the exception would.
\<close>

fun addAll :: "string_hash \<Rightarrow> word_hash \<Rightarrow> string list \<Rightarrow> MerkleTree \<Rightarrow> error + MerkleTree" where
  "addAll sh wh [] t = Inr t"
| "addAll sh wh (d # ds) t =
     (case addHashOf sh wh d t of
        (Inl e, _) \<Rightarrow> Inl e
      | (Inr _, t') \<Rightarrow> addAll sh wh ds t')"

text \<open>The hash of the subtree of height \<open>h\<close> whose leftmost leaf is \<open>i * 2 ^ h\<close>.\<close>

fun subtreeHash :: "word_hash \<Rightarrow> hash_t list \<Rightarrow> nat \<Rightarrow> nat \<Rightarrow> hash_t" where
  "subtreeHash wh ls 0 i = ls ! i"
| "subtreeHash wh ls (Suc h) i =
     combine wh (subtreeHash wh ls h (2 * i)) (subtreeHash wh ls h (2 * i + 1))"

text \<open>
  The state of a tree after the items \<open>ds\<close> were appended to the empty tree, written
  without the operations: the leaves are the hashes of the items followed by zeros, the
  size is the number of items, and the root is the hash of the whole leaf array (0 while
  nothing was appended).
\<close>

definition leavesOf :: "string_hash \<Rightarrow> string list \<Rightarrow> hash_t list" where
  "leavesOf sh ds = map sh ds @ replicate (32 - length ds) 0"

definition rootOf :: "string_hash \<Rightarrow> word_hash \<Rightarrow> string list \<Rightarrow> hash_t" where
  "rootOf sh wh ds = (if ds = [] then 0 else subtreeHash wh (leavesOf sh ds) 5 0)"

definition treeOf :: "string_hash \<Rightarrow> word_hash \<Rightarrow> string list \<Rightarrow> MerkleTree" where
  "treeOf sh wh ds =
     \<lparr>currentRootHash = rootOf sh wh ds,
      currentTreeSize = of_nat (length ds),
      treeLeafNodes = leavesOf sh ds\<rparr>"

text \<open>
  The index of the sibling as a natural number, and the proof for leaf \<open>i\<close> written as
  subtree hashes: the sibling subtree at each of the heights 0 to 4 on the way up.
\<close>

definition siblingIndex :: "nat \<Rightarrow> nat" where
  "siblingIndex i = (if even i then i + 1 else i - 1)"

definition proofOf :: "word_hash \<Rightarrow> hash_t list \<Rightarrow> nat \<Rightarrow> hash_t list" where
  "proofOf wh ls i =
     [subtreeHash wh ls 0 (siblingIndex i),
      subtreeHash wh ls 1 (siblingIndex (i div 2)),
      subtreeHash wh ls 2 (siblingIndex (i div 2 div 2)),
      subtreeHash wh ls 3 (siblingIndex (i div 2 div 2 div 2)),
      subtreeHash wh ls 4 (siblingIndex (i div 2 div 2 div 2 div 2))]"

text \<open>
  Two concrete hash functions, used where a statement is evaluated on an example: a
  polynomial hash of the characters of a string, and the successor on \<open>hash_t\<close>.
\<close>

definition exampleStringHash :: string_hash where
  "exampleStringHash s = foldl (\<lambda>h c. 31 * h + of_nat (of_char c)) 7 s"

definition exampleWordHash :: word_hash where
  "exampleWordHash x = x + 1"

text \<open>
  The values that \<open>verifyProof\<close> hands to \<open>std::hash<hash_t>\<close> while it replays a proof
  from the computed hash \<open>c\<close>: the sum of the computed hash and the proof hash at each
  step.
\<close>

fun replaySums :: "word_hash \<Rightarrow> hash_t \<Rightarrow> hash_t list \<Rightarrow> hash_t list" where
  "replaySums wh c [] = []"
| "replaySums wh c (proofHash # rest) =
     (c + proofHash) # replaySums wh (combine wh c proofHash) rest"

text \<open>
  The invariant of the data model: the leaf array has \<open>treeCapacity\<close> entries (the type
  \<open>std::array<hash_t, treeCapacity>\<close>) and the size does not exceed the capacity.
\<close>

definition treeInvariant :: "MerkleTree \<Rightarrow> bool" where
  "treeInvariant t \<longleftrightarrow>
     length (treeLeafNodes t) = unat treeCapacity \<and> currentTreeSize t \<le> treeCapacity"

text \<open>
  The exchange of the leaf hashes stored at the sibling positions \<open>2 * k\<close> and
  \<open>2 * k + 1\<close>. The code has no such operation; it is the change of state that claim C10
  speaks about.
\<close>

definition exchangeLeaves :: "nat \<Rightarrow> MerkleTree \<Rightarrow> MerkleTree" where
  "exchangeLeaves k t =
     t\<lparr>treeLeafNodes :=
         (treeLeafNodes t)[2 * k := treeLeafNodes t ! (2 * k + 1),
                           2 * k + 1 := treeLeafNodes t ! (2 * k)]\<rparr>"

text \<open>
  A string hash that gives two items hashes whose sum is 0, and no two of the items
  \<open>data1\<close> to \<open>data5\<close> the same hash.
\<close>

definition cancellingStringHash :: string_hash where
  "cancellingStringHash s =
     (if s = ''data4'' then 5 else if s = ''data5'' then - 5 else exampleStringHash s)"

section \<open>Node hashes as subtree hashes\<close>

lemma treeCapacity_32: "treeCapacity = 32"
  by (simp add: treeCapacity_def treeHeight_def)

lemma unat_small: "n \<le> 32 \<Longrightarrow> unat (of_nat n :: size_t) = n"
  by (simp add: unat_of_nat take_bit_nat_eq_self)

text \<open>
  On an array of 32 leaves, the node at level \<open>l \<le> 5\<close> and index \<open>i < 2 ^ l\<close> has the
  hash of the subtree of height \<open>5 - l\<close> at position \<open>i\<close>: no access leaves the array.
\<close>

lemma getNodeHash_subtreeHash:
  "length (treeLeafNodes t) = 32 \<Longrightarrow> unat (level node) + k = 5 \<Longrightarrow>
   unat (index node) < 2 ^ unat (level node) \<Longrightarrow>
   getNodeHash wh t node = Inr (subtreeHash wh (treeLeafNodes t) k (unat (index node)))"
proof (induction k arbitrary: node)
  case 0
  then have "level node = treeHeight"
    by (simp add: treeHeight_def word_eq_iff_unsigned[where ?'a = nat])
  with 0 show ?case
    by (simp add: getNodeHash.simps isLeaf_def getIndex_def)
next
  case (Suc k)
  have lv: "unat (level node) < 5" using Suc.prems by simp
  then have nl: "\<not> isLeaf node"
    by (auto simp: isLeaf_def treeHeight_def)
  have ix: "unat (index node) < 32"
  proof -
    have "(2::nat) ^ unat (level node) \<le> 2 ^ 5"
      using lv by (intro power_increasing) simp_all
    then show ?thesis using Suc.prems(3) by simp
  qed
  have l1: "unat (level node + 1) = unat (level node) + 1"
    using lv by (simp add: unat_word_ariths)
  have i2: "unat (2 * index node) = 2 * unat (index node)"
    using ix by (simp add: unat_word_ariths)
  have i3: "unat (2 * index node + 1) = 2 * unat (index node) + 1"
    using ix by (simp add: unat_word_ariths)
  have L: "getNodeHash wh t (getLeftChild node) =
      Inr (subtreeHash wh (treeLeafNodes t) k (2 * unat (index node)))"
    using Suc.IH[of "getLeftChild node"] Suc.prems l1 i2
    by (simp add: getLeftChild_def)
  have R: "getNodeHash wh t (getRightChild node) =
      Inr (subtreeHash wh (treeLeafNodes t) k (2 * unat (index node) + 1))"
    using Suc.IH[of "getRightChild node"] Suc.prems l1 i3
    by (simp add: getRightChild_def)
  show ?case
    by (subst getNodeHash.simps) (simp add: nl L R)
qed

lemma getNodeHash_root:
  "length (treeLeafNodes t) = 32 \<Longrightarrow>
   getNodeHash wh t \<lparr>level = 0, index = 0\<rparr> = Inr (subtreeHash wh (treeLeafNodes t) 5 0)"
  using getNodeHash_subtreeHash[of t "\<lparr>level = 0, index = 0\<rparr>" 5 wh] by simp

section \<open>The state of a tree built by appending\<close>

lemma length_leavesOf: "length ds \<le> 32 \<Longrightarrow> length (leavesOf sh ds) = 32"
  by (simp add: leavesOf_def)

lemma construct_treeOf: "construct = treeOf sh wh []"
  by (simp add: construct_def treeOf_def rootOf_def leavesOf_def treeCapacity_32)

lemma isFull_treeOf: "length ds \<le> 32 \<Longrightarrow> isFull (treeOf sh wh ds) \<longleftrightarrow> length ds = 32"
proof -
  assume le: "length ds \<le> 32"
  have "(of_nat (length ds) :: size_t) = 32 \<longleftrightarrow> unat (of_nat (length ds) :: size_t) = unat (32 :: size_t)"
    by (simp only: word_unat_eq_iff)
  with le show ?thesis
    by (simp add: isFull_def treeOf_def treeCapacity_32 unat_small)
qed

lemma leavesOf_snoc:
  "length ds < 32 \<Longrightarrow> (leavesOf sh ds)[length ds := sh d] = leavesOf sh (ds @ [d])"
proof -
  assume lt: "length ds < 32"
  then obtain m where m: "32 - length ds = Suc m"
    by (cases "32 - length ds") simp_all
  then have m': "31 - length ds = m" by arith
  show ?thesis
    using list_update_length[of "map sh ds" 0 "replicate m 0" "sh d"]
    by (simp add: leavesOf_def m m' del: list_update_length)
qed

lemma addHashOf_treeOf:
  assumes "length ds < 32"
  shows "addHashOf sh wh d (treeOf sh wh ds) = (Inr (), treeOf sh wh (ds @ [d]))"
proof -
  have nf: "\<not> isFull (treeOf sh wh ds)"
    using assms by (simp add: isFull_treeOf)
  have sz: "unat (currentTreeSize (treeOf sh wh ds)) = length ds"
    using assms by (simp add: treeOf_def unat_small)
  have len: "length (treeLeafNodes (treeOf sh wh ds)) = 32"
    using assms by (simp add: treeOf_def length_leavesOf)
  have upd: "(treeLeafNodes (treeOf sh wh ds))[length ds := sh d] = leavesOf sh (ds @ [d])"
    using assms by (simp add: treeOf_def leavesOf_snoc)
  show ?thesis
    using assms
    by (simp add: addHashOf_def nf sz len upd Let_def getNodeHash_root length_leavesOf)
       (simp add: treeOf_def rootOf_def)
qed

lemma addHashOf_treeOf_full:
  assumes "length ds = 32"
  shows "addHashOf sh wh d (treeOf sh wh ds) = (Inl MerkleTreeFullException, treeOf sh wh ds)"
  using assms by (simp add: addHashOf_def isFull_treeOf)

lemma addAll_treeOf:
  "length (pre @ ds) \<le> 32 \<Longrightarrow>
   addAll sh wh ds (treeOf sh wh pre) = Inr (treeOf sh wh (pre @ ds))"
proof (induction ds arbitrary: pre)
  case Nil
  then show ?case by simp
next
  case (Cons d ds)
  then have "length pre < 32" by simp
  then have "addHashOf sh wh d (treeOf sh wh pre) = (Inr (), treeOf sh wh (pre @ [d]))"
    by (rule addHashOf_treeOf)
  moreover have "addAll sh wh ds (treeOf sh wh (pre @ [d])) = Inr (treeOf sh wh ((pre @ [d]) @ ds))"
    using Cons.prems by (intro Cons.IH) simp
  ultimately show ?case by simp
qed

lemma addAll_treeOf_overflow:
  "length pre \<le> 32 \<Longrightarrow> 32 < length (pre @ ds) \<Longrightarrow>
   addAll sh wh ds (treeOf sh wh pre) = Inl MerkleTreeFullException"
proof (induction ds arbitrary: pre)
  case Nil
  then show ?case by simp
next
  case (Cons d ds)
  show ?case
  proof (cases "length pre = 32")
    case True
    then show ?thesis by (simp add: addHashOf_treeOf_full)
  next
    case False
    with Cons.prems have lt: "length pre < 32" by simp
    have "addAll sh wh ds (treeOf sh wh (pre @ [d])) = Inl MerkleTreeFullException"
      using Cons.prems lt by (intro Cons.IH) simp_all
    then show ?thesis using lt by (simp add: addHashOf_treeOf)
  qed
qed

lemma addAll_construct_iff:
  "addAll sh wh ds construct = Inr t \<longleftrightarrow> length ds \<le> 32 \<and> t = treeOf sh wh ds"
proof (cases "length ds \<le> 32")
  case True
  then show ?thesis
    using addAll_treeOf[of "[]" ds sh wh] by (auto simp: construct_treeOf[of sh wh])
next
  case False
  then show ?thesis
    using addAll_treeOf_overflow[of "[]" ds sh wh] by (simp add: construct_treeOf[of sh wh])
qed

section \<open>The path and the generated proof\<close>

lemma replicate5: "replicate 5 x = [x, x, x, x, x]"
  by (simp add: numeral_eq_Suc)

lemma getPathFromLeafToRoot_unrolled:
  "getPathFromLeafToRoot node =
     [\<lparr>level = 5, index = index node\<rparr>,
      \<lparr>level = 4, index = index node div 2\<rparr>,
      \<lparr>level = 3, index = index node div 2 div 2\<rparr>,
      \<lparr>level = 2, index = index node div 2 div 2 div 2\<rparr>,
      \<lparr>level = 1, index = index node div 2 div 2 div 2 div 2\<rparr>]"
  by (simp add: getPathFromLeafToRoot_def treeHeight_def pathLoop.simps replicate5)

lemma word_even_iff: "(w :: size_t) mod 2 = 0 \<longleftrightarrow> even (unat w)"
proof -
  have "w mod 2 = 0 \<longleftrightarrow> unat (w mod 2) = 0"
    by (simp only: unat_eq_zero)
  then show ?thesis
    by (simp add: unat_mod even_iff_mod_2_eq_zero)
qed

lemma siblingIndex_less:
  assumes "i < 2 ^ l" "0 < l"
  shows "siblingIndex i < 2 ^ l"
proof (cases "even i")
  case True
  from assms(2) obtain m where l: "l = Suc m" by (cases l) simp_all
  from True obtain j where j: "i = 2 * j" by (auto elim: evenE)
  with assms(1) l have "j < 2 ^ m" by simp
  then have "2 * j + 1 < 2 * 2 ^ m" by arith
  with True j l show ?thesis by (simp add: siblingIndex_def)
next
  case False
  with assms show ?thesis by (simp add: siblingIndex_def)
qed

lemma getSiblingNode_unat:
  assumes "unat w < 32"
  shows "level (getSiblingNode \<lparr>level = l, index = w\<rparr>) = l"
    and "unat (index (getSiblingNode \<lparr>level = l, index = w\<rparr>)) = siblingIndex (unat w)"
proof -
  show "level (getSiblingNode \<lparr>level = l, index = w\<rparr>) = l"
    by (simp add: getSiblingNode_def)
  show "unat (index (getSiblingNode \<lparr>level = l, index = w\<rparr>)) = siblingIndex (unat w)"
  proof (cases "even (unat w)")
    case True
    have "unat (w + 1) = unat w + 1"
      using assms by (simp add: unat_word_ariths)
    with True show ?thesis
      by (simp add: getSiblingNode_def word_even_iff siblingIndex_def)
  next
    case False
    then have "unat w \<noteq> 0" by (rule contrapos_nn) simp
    then have "w \<noteq> 0" by auto
    then have "unat (w - 1) = unat w - 1" by (rule unat_minus_one)
    with False show ?thesis
      by (simp add: getSiblingNode_def word_even_iff siblingIndex_def)
  qed
qed

lemma getNodeHash_sibling:
  assumes len: "length (treeLeafNodes t) = 32"
    and lv: "unat l + k = 5" and k: "k < 5"
    and ix: "unat w < 2 ^ unat l"
  shows "getNodeHash wh t (getSiblingNode \<lparr>level = l, index = w\<rparr>) =
           Inr (subtreeHash wh (treeLeafNodes t) k (siblingIndex (unat w)))"
proof -
  have "(2::nat) ^ unat l \<le> 2 ^ 5"
    using lv by (intro power_increasing) simp_all
  with ix have w32: "unat w < 32" by simp
  from lv k have pos: "0 < unat l" by simp
  let ?s = "getSiblingNode \<lparr>level = l, index = w\<rparr>"
  have "unat (level ?s) + k = 5"
    using lv by (simp add: getSiblingNode_unat(1)[OF w32])
  moreover have "unat (index ?s) < 2 ^ unat (level ?s)"
    using siblingIndex_less[OF ix pos]
    by (simp add: getSiblingNode_unat[OF w32])
  ultimately have "getNodeHash wh t ?s =
      Inr (subtreeHash wh (treeLeafNodes t) k (unat (index ?s)))"
    using len by (intro getNodeHash_subtreeHash)
  then show ?thesis
    by (simp add: getSiblingNode_unat(2)[OF w32])
qed

lemma generateProof_proofOf:
  assumes len: "length (treeLeafNodes t) = 32"
    and sz: "unat (currentTreeSize t) \<le> 32"
    and ix: "idx < currentTreeSize t"
  shows "generateProof wh t idx = Inr (proofOf wh (treeLeafNodes t) (unat idx))"
proof -
  from ix have i32: "unat idx < 32"
    using sz by (simp add: word_less_nat_alt)
  from ix have ne: "\<not> isEmpty t"
    by (auto simp: isEmpty_def)
  from ix have nge: "\<not> currentTreeSize t \<le> idx"
    by simp
  have h0: "getNodeHash wh t (getSiblingNode \<lparr>level = 5, index = idx\<rparr>) =
      Inr (subtreeHash wh (treeLeafNodes t) 0 (siblingIndex (unat idx)))"
    using i32 by (intro getNodeHash_sibling[OF len]) simp_all
  have h1: "getNodeHash wh t (getSiblingNode \<lparr>level = 4, index = idx div 2\<rparr>) =
      Inr (subtreeHash wh (treeLeafNodes t) 1 (siblingIndex (unat (idx div 2))))"
    using i32 by (intro getNodeHash_sibling[OF len]) (simp_all add: unat_div)
  have h2: "getNodeHash wh t (getSiblingNode \<lparr>level = 3, index = idx div 2 div 2\<rparr>) =
      Inr (subtreeHash wh (treeLeafNodes t) 2 (siblingIndex (unat (idx div 2 div 2))))"
    using i32 by (intro getNodeHash_sibling[OF len]) (simp_all add: unat_div)
  have h3: "getNodeHash wh t (getSiblingNode \<lparr>level = 2, index = idx div 2 div 2 div 2\<rparr>) =
      Inr (subtreeHash wh (treeLeafNodes t) 3 (siblingIndex (unat (idx div 2 div 2 div 2))))"
    using i32 by (intro getNodeHash_sibling[OF len]) (simp_all add: unat_div)
  have h4: "getNodeHash wh t (getSiblingNode \<lparr>level = 1, index = idx div 2 div 2 div 2 div 2\<rparr>) =
      Inr (subtreeHash wh (treeLeafNodes t) 4 (siblingIndex (unat (idx div 2 div 2 div 2 div 2))))"
    using i32 by (intro getNodeHash_sibling[OF len]) (simp_all add: unat_div)
  show ?thesis
    by (simp add: generateProof_def ne nge getPathFromLeafToRoot_unrolled treeHeight_def
        h0 h1 h2 h3 h4 proofOf_def unat_div)
qed

section \<open>Replaying a proof\<close>

lemma combine_sym: "combine wh a b = combine wh b a"
  by (simp add: combine_def add.commute)

lemma subtreeHash_parent:
  "subtreeHash wh ls (Suc h) (i div 2) =
     combine wh (subtreeHash wh ls h i) (subtreeHash wh ls h (siblingIndex i))"
proof (cases "even i")
  case True
  then have "2 * (i div 2) = i" by simp
  with True show ?thesis by (simp add: siblingIndex_def)
next
  case False
  then have "2 * (i div 2) + 1 = i" by (simp add: odd_two_times_div_two_succ)
  moreover from this have "2 * (i div 2) = i - 1" by arith
  ultimately show ?thesis
    using False by (simp add: siblingIndex_def combine_sym[of wh "subtreeHash wh ls h i"])
qed

lemma replay_proofOf:
  assumes "i < 32"
  shows "foldl (combine wh) (ls ! i) (proofOf wh ls i) = subtreeHash wh ls 5 0"
proof -
  have top: "i div 2 div 2 div 2 div 2 div 2 = 0"
    using assms by (simp add: div_mult2_eq[symmetric])
  have s1: "combine wh (ls ! i) (subtreeHash wh ls 0 (siblingIndex i)) =
      subtreeHash wh ls 1 (i div 2)"
    using subtreeHash_parent[of wh ls 0 i] by simp
  have s2: "combine wh (subtreeHash wh ls 1 j) (subtreeHash wh ls 1 (siblingIndex j)) =
      subtreeHash wh ls 2 (j div 2)" for j
    using subtreeHash_parent[of wh ls 1 j] by (simp add: numeral_2_eq_2)
  have s3: "combine wh (subtreeHash wh ls 2 j) (subtreeHash wh ls 2 (siblingIndex j)) =
      subtreeHash wh ls 3 (j div 2)" for j
    using subtreeHash_parent[of wh ls 2 j] by (simp add: numeral_3_eq_3 numeral_2_eq_2)
  have s4: "combine wh (subtreeHash wh ls 3 j) (subtreeHash wh ls 3 (siblingIndex j)) =
      subtreeHash wh ls 4 (j div 2)" for j
    using subtreeHash_parent[of wh ls 3 j] by (simp add: eval_nat_numeral)
  have s5: "combine wh (subtreeHash wh ls 4 j) (subtreeHash wh ls 4 (siblingIndex j)) =
      subtreeHash wh ls 5 (j div 2)" for j
    using subtreeHash_parent[of wh ls 4 j] by (simp add: eval_nat_numeral)
  show ?thesis
    by (simp only: proofOf_def foldl.simps s1 s2 s3 s4 s5 top)
qed

section \<open>Built trees: invariant, root and proof\<close>

lemma built_tree:
  assumes "addAll sh wh ds construct = Inr t"
  shows "length ds \<le> 32" and "t = treeOf sh wh ds"
  using assms by (simp_all add: addAll_construct_iff)

lemma leavesOf_nth: "i < length ds \<Longrightarrow> leavesOf sh ds ! i = sh (ds ! i)"
  by (simp add: leavesOf_def nth_append)

lemma built_tree_invariant:
  assumes "addAll sh wh ds construct = Inr t"
  shows "length (treeLeafNodes t) = 32" and "unat (currentTreeSize t) = length ds"
    and "length ds \<le> 32"
  using built_tree[OF assms] by (simp_all add: treeOf_def leavesOf_def unat_small)

text \<open>
  In a tree built from \<open>ds\<close>, for an index below the size: the root and the proof are
  returned, and replaying the proof from the hash of the item gives the root.
\<close>

lemma built_tree_proof:
  assumes "addAll sh wh ds construct = Inr t" and "idx < currentTreeSize t"
  shows "getRootHash t = Inr (rootOf sh wh ds)"
    and "generateProof wh t idx = Inr (proofOf wh (leavesOf sh ds) (unat idx))"
    and "foldl (combine wh) (sh (ds ! unat idx)) (proofOf wh (leavesOf sh ds) (unat idx))
           = rootOf sh wh ds"
proof -
  note b = built_tree[OF assms(1)]
  note inv = built_tree_invariant[OF assms(1)]
  have i: "unat idx < length ds"
    using inv(2) assms(2) by (simp add: word_less_nat_alt)
  then have ne: "ds \<noteq> []" by auto
  show "getRootHash t = Inr (rootOf sh wh ds)"
    using b ne assms(2) by (auto simp: getRootHash_def isEmpty_def treeOf_def)
  show "generateProof wh t idx = Inr (proofOf wh (leavesOf sh ds) (unat idx))"
    using generateProof_proofOf[OF inv(1) _ assms(2), of wh] inv b by (simp add: treeOf_def)
  have "foldl (combine wh) (leavesOf sh ds ! unat idx) (proofOf wh (leavesOf sh ds) (unat idx))
      = subtreeHash wh (leavesOf sh ds) 5 0"
    using i inv(3) by (intro replay_proofOf) simp
  then show "foldl (combine wh) (sh (ds ! unat idx)) (proofOf wh (leavesOf sh ds) (unat idx))
           = rootOf sh wh ds"
    using i ne by (simp add: leavesOf_nth rootOf_def)
qed

lemma replay_distinct:
  assumes "inj_on wh (set (replaySums wh a pf) \<union> set (replaySums wh b pf))" and "a \<noteq> b"
  shows "foldl (combine wh) a pf \<noteq> foldl (combine wh) b pf"
  using assms
proof (induction pf arbitrary: a b)
  case Nil
  then show ?case by simp
next
  case (Cons p pf)
  let ?S = "set (replaySums wh a (p # pf)) \<union> set (replaySums wh b (p # pf))"
  have in1: "a + p \<in> ?S" and in2: "b + p \<in> ?S" by simp_all
  have ne0: "a + p \<noteq> b + p" using Cons.prems(2) by simp
  have ne: "combine wh a p \<noteq> combine wh b p"
    unfolding combine_def
  proof
    assume eq: "wh (a + p) = wh (b + p)"
    from Cons.prems(1) eq in1 in2 have "a + p = b + p" by (rule inj_onD)
    with ne0 show False by contradiction
  qed
  have "set (replaySums wh (combine wh a p) pf) \<union> set (replaySums wh (combine wh b p) pf) \<subseteq> ?S"
    by auto
  with Cons.prems(1)
  have "inj_on wh (set (replaySums wh (combine wh a p) pf) \<union> set (replaySums wh (combine wh b p) pf))"
    by (rule inj_on_subset)
  from Cons.IH[OF this ne] show ?case by simp
qed

lemma treeInvariant_unat:
  "treeInvariant t \<longleftrightarrow> length (treeLeafNodes t) = 32 \<and> unat (currentTreeSize t) \<le> 32"
  by (simp add: treeInvariant_def treeCapacity_32 word_le_nat_alt)

lemma built_tree_treeInvariant:
  "addAll sh wh ds construct = Inr t \<Longrightarrow> treeInvariant t"
  using built_tree_invariant[of sh wh ds t] by (simp add: treeInvariant_unat)

lemma addHashOf_not_full:
  assumes "treeInvariant t" and "\<not> isFull t"
  shows "addHashOf sh wh d t =
     (Inr (),
      \<lparr>currentRootHash =
         subtreeHash wh ((treeLeafNodes t)[unat (currentTreeSize t) := sh d]) 5 0,
       currentTreeSize = currentTreeSize t + 1,
       treeLeafNodes = (treeLeafNodes t)[unat (currentTreeSize t) := sh d]\<rparr>)"
proof -
  from assms have len: "length (treeLeafNodes t) = 32" and le: "unat (currentTreeSize t) \<le> 32"
    by (simp_all add: treeInvariant_unat)
  from assms(2) have "unat (currentTreeSize t) \<noteq> unat (32 :: size_t)"
    unfolding isFull_def treeCapacity_32 by (simp only: word_unat_eq_iff not_False_eq_True)
  with le have lt: "unat (currentTreeSize t) < 32" by simp
  let ?t2 = "t\<lparr>treeLeafNodes := (treeLeafNodes t)[unat (currentTreeSize t) := sh d],
               currentTreeSize := currentTreeSize t + 1\<rparr>"
  have "getNodeHash wh ?t2 \<lparr>level = 0, index = 0\<rparr> =
      Inr (subtreeHash wh (treeLeafNodes ?t2) 5 0)"
    by (rule getNodeHash_root) (simp add: len)
  then show ?thesis
    using assms(2) lt by (simp add: addHashOf_def Let_def len)
qed

section \<open>Example trees\<close>

text \<open>The full tree of 32 equal items and the tree of three items.\<close>

lemma example_full_tree:
  "addAll exampleStringHash exampleWordHash (replicate 32 ''data'') construct =
   Inr \<lparr>currentRootHash = 305301055, currentTreeSize = 32,
        treeLeafNodes = replicate 32 9540657\<rparr>"
proof -
  have "treeOf exampleStringHash exampleWordHash (replicate 32 ''data'') =
      \<lparr>currentRootHash = 305301055, currentTreeSize = 32,
        treeLeafNodes = replicate 32 9540657\<rparr>"
    by code_simp
  then show ?thesis
    by (simp add: addAll_construct_iff)
qed

lemma example_tree3:
  "addAll exampleStringHash exampleWordHash [''data1'', ''data2'', ''data3''] construct =
     Inr \<lparr>currentRootHash = 887281282, currentTreeSize = 3,
          treeLeafNodes = [295760416, 295760417, 295760418] @ replicate 29 0\<rparr>"
  by code_simp

section \<open>The root of built trees and of the empty tree\<close>

lemma subtreeHash_zero:
  assumes "wh 0 = 0"
  shows "i < 2 ^ (5 - h) \<Longrightarrow> h \<le> 5 \<Longrightarrow> subtreeHash wh (replicate 32 0) h i = 0"
proof (induction h arbitrary: i)
  case 0
  then show ?case by simp
next
  case (Suc h)
  from Suc.prems have "5 - h = Suc (5 - Suc h)" by simp
  then have p: "(2::nat) ^ (5 - h) = 2 * 2 ^ (5 - Suc h)" by simp
  have "2 * i < 2 ^ (5 - h)" and "2 * i + 1 < 2 ^ (5 - h)"
    using Suc.prems(1) unfolding p by simp_all
  then have "subtreeHash wh (replicate 32 0) h (2 * i) = 0"
    and "subtreeHash wh (replicate 32 0) h (2 * i + 1) = 0"
    using Suc.prems(2) by (simp_all add: Suc.IH)
  then show ?case
    using assms by (simp add: combine_def)
qed

lemma index_below_treeInvariant:
  assumes "treeInvariant t" and "i < currentTreeSize t"
  shows "generateProof wh t i = Inr (proofOf wh (treeLeafNodes t) (unat i))"
  using assms generateProof_proofOf[of t i wh] by (simp add: treeInvariant_unat)

lemma built_tree_root:
  assumes "addAll sh wh ds construct = Inr t" and "ds \<noteq> []"
  shows "getNodeHash wh t \<lparr>level = 0, index = 0\<rparr> = Inr (currentRootHash t)"
  using getNodeHash_root[of t wh] built_tree_invariant(1)[OF assms(1)] built_tree(2)[OF assms(1)]
    assms(2)
  by (simp add: treeOf_def rootOf_def)

lemma construct_root_zero:
  assumes "wh 0 = 0"
  shows "getNodeHash wh construct \<lparr>level = 0, index = 0\<rparr> = Inr 0"
proof -
  have "treeLeafNodes construct = replicate 32 0"
    by (simp add: construct_def treeCapacity_32)
  then show ?thesis
    using getNodeHash_root[of construct wh] subtreeHash_zero[where wh = wh and i = 0 and h = 5] assms
    by simp
qed

section \<open>Exchanging two sibling leaves\<close>

lemma subtreeHash_exchange:
  assumes "2 * k + 1 < length ls"
  shows "subtreeHash wh (ls[2 * k := ls ! (2 * k + 1), 2 * k + 1 := ls ! (2 * k)]) (Suc h) i =
         subtreeHash wh ls (Suc h) i"
proof (induction h arbitrary: i)
  case 0
  let ?ls' = "ls[2 * k := ls ! (2 * k + 1), 2 * k + 1 := ls ! (2 * k)]"
  show ?case
  proof (cases "i = k")
    case True
    have "?ls' ! (2 * k) = ls ! (2 * k + 1)" and "?ls' ! (2 * k + 1) = ls ! (2 * k)"
      using assms by simp_all
    with True show ?thesis
      by (simp add: combine_sym[of wh "ls ! (2 * k)"])
  next
    case False
    then have "2 * i \<noteq> 2 * k" and "2 * i \<noteq> 2 * k + 1"
      and "2 * i + 1 \<noteq> 2 * k" and "2 * i + 1 \<noteq> 2 * k + 1"
      by presburger+
    then have "?ls' ! (2 * i) = ls ! (2 * i)" and "?ls' ! (2 * i + 1) = ls ! (2 * i + 1)"
      by simp_all
    then show ?thesis by simp
  qed
next
  case (Suc h)
  show ?case
    by (simp only: subtreeHash.simps(2)[of wh _ "Suc h"] Suc.IH)
qed

lemma siblingIndex_other:
  "i \<noteq> 2 * k \<Longrightarrow> i \<noteq> 2 * k + 1 \<Longrightarrow> siblingIndex i \<noteq> 2 * k \<and> siblingIndex i \<noteq> 2 * k + 1"
  by (auto simp: siblingIndex_def elim!: oddE)

lemma proofOf_exchange:
  assumes "2 * k + 1 < length ls" and "i \<noteq> 2 * k" and "i \<noteq> 2 * k + 1"
  shows "proofOf wh (ls[2 * k := ls ! (2 * k + 1), 2 * k + 1 := ls ! (2 * k)]) i = proofOf wh ls i"
proof -
  let ?ls' = "ls[2 * k := ls ! (2 * k + 1), 2 * k + 1 := ls ! (2 * k)]"
  have "?ls' ! siblingIndex i = ls ! siblingIndex i"
    using siblingIndex_other[OF assms(2,3)] by simp
  moreover have "subtreeHash wh ?ls' 1 j = subtreeHash wh ls 1 j" for j
    using subtreeHash_exchange[OF assms(1), of wh 0 j] by simp
  moreover have "subtreeHash wh ?ls' 2 j = subtreeHash wh ls 2 j" for j
    using subtreeHash_exchange[OF assms(1), of wh 1 j] by (simp add: numeral_2_eq_2)
  moreover have "subtreeHash wh ?ls' 3 j = subtreeHash wh ls 3 j" for j
    using subtreeHash_exchange[OF assms(1), of wh 2 j] by (simp add: numeral_3_eq_3 numeral_2_eq_2)
  moreover have "subtreeHash wh ?ls' 4 j = subtreeHash wh ls 4 j" for j
    using subtreeHash_exchange[OF assms(1), of wh 3 j] by (simp add: eval_nat_numeral)
  ultimately show ?thesis
    by (simp add: proofOf_def)
qed

lemma getNodeHash_exchange:
  assumes len: "length (treeLeafNodes t) = 32" and k: "2 * k + 1 < 32"
    and lv: "unat (level node) < 5" and ix: "unat (index node) < 2 ^ unat (level node)"
  shows "getNodeHash wh (exchangeLeaves k t) node = getNodeHash wh t node"
proof -
  from lv obtain h where h: "unat (level node) + Suc h = 5"
    by (metis add_Suc_right less_imp_Suc_add)
  have len': "length (treeLeafNodes (exchangeLeaves k t)) = 32"
    using len by (simp add: exchangeLeaves_def)
  have "getNodeHash wh (exchangeLeaves k t) node =
      Inr (subtreeHash wh (treeLeafNodes (exchangeLeaves k t)) (Suc h) (unat (index node)))"
    using len' h ix by (rule getNodeHash_subtreeHash)
  moreover have "getNodeHash wh t node =
      Inr (subtreeHash wh (treeLeafNodes t) (Suc h) (unat (index node)))"
    using len h ix by (rule getNodeHash_subtreeHash)
  moreover have "subtreeHash wh (treeLeafNodes (exchangeLeaves k t)) (Suc h) (unat (index node)) =
      subtreeHash wh (treeLeafNodes t) (Suc h) (unat (index node))"
    unfolding exchangeLeaves_def using subtreeHash_exchange[of k "treeLeafNodes t" wh h] k len
    by simp
  ultimately show ?thesis by simp
qed

lemma getNodeHash_leaf:
  assumes "length (treeLeafNodes t) = 32" and "j < 32"
  shows "getNodeHash wh t \<lparr>level = treeHeight, index = of_nat j\<rparr> = Inr (treeLeafNodes t ! j)"
  using assms getNodeHash_subtreeHash[of t "\<lparr>level = treeHeight, index = of_nat j\<rparr>" 0 wh]
  by (simp add: treeHeight_def unat_small)

section \<open>One more append: the old and the new root\<close>

lemma subtreeHash_update_other:
  "n div 2 ^ h \<noteq> j \<Longrightarrow> subtreeHash wh (ls[n := v]) h j = subtreeHash wh ls h j"
proof (induction h arbitrary: j)
  case 0
  then show ?case by simp
next
  case (Suc h)
  have "n div 2 ^ Suc h = n div (2 ^ h * 2)" by (simp add: mult.commute)
  also have "\<dots> = n div 2 ^ h div 2" by (rule div_mult2_eq)
  finally have "n div 2 ^ h div 2 \<noteq> j" using Suc.prems by simp
  then have "n div 2 ^ h \<noteq> 2 * j" and "n div 2 ^ h \<noteq> 2 * j + 1"
    by auto
  then show ?case
    by (simp add: Suc.IH)
qed

lemma siblingIndex_neq: "siblingIndex i \<noteq> i"
  by (auto simp: siblingIndex_def elim: oddE)

lemma proofOf_update_self: "proofOf wh (ls[n := v]) n = proofOf wh ls n"
proof -
  have d0: "n div 2 ^ 0 = n" and d1: "n div 2 ^ 1 = n div 2"
    and d2: "n div 2 ^ 2 = n div 2 div 2"
    and d3: "n div 2 ^ 3 = n div 2 div 2 div 2"
    and d4: "n div 2 ^ 4 = n div 2 div 2 div 2 div 2"
    by (simp_all add: div_mult2_eq[symmetric])
  have gen: "subtreeHash wh (ls[n := v]) h (siblingIndex (n div 2 ^ h)) =
      subtreeHash wh ls h (siblingIndex (n div 2 ^ h))" for h
    by (rule subtreeHash_update_other) (simp add: siblingIndex_neq[symmetric])
  have h0: "subtreeHash wh (ls[n := v]) 0 (siblingIndex n) = subtreeHash wh ls 0 (siblingIndex n)"
    using gen[of 0] by (simp only: d0)
  have h1: "subtreeHash wh (ls[n := v]) 1 (siblingIndex (n div 2)) =
      subtreeHash wh ls 1 (siblingIndex (n div 2))"
    using gen[of 1] by (simp only: d1)
  have h2: "subtreeHash wh (ls[n := v]) 2 (siblingIndex (n div 2 div 2)) =
      subtreeHash wh ls 2 (siblingIndex (n div 2 div 2))"
    using gen[of 2] by (simp only: d2)
  have h3: "subtreeHash wh (ls[n := v]) 3 (siblingIndex (n div 2 div 2 div 2)) =
      subtreeHash wh ls 3 (siblingIndex (n div 2 div 2 div 2))"
    using gen[of 3] by (simp only: d3)
  have h4: "subtreeHash wh (ls[n := v]) 4 (siblingIndex (n div 2 div 2 div 2 div 2)) =
      subtreeHash wh ls 4 (siblingIndex (n div 2 div 2 div 2 div 2))"
    using gen[of 4] by (simp only: d4)
  show ?thesis
    by (simp only: proofOf_def h0 h1 h2 h3 h4)
qed

text \<open>
  One more item appended to a tree built from \<open>ds\<close>: the proof for the new leaf is made
  of subtrees that do not hold the new leaf, the old root is that proof replayed from the
  placeholder 0 and the new root is it replayed from the hash of the new item.
\<close>

lemma append_roots:
  assumes n: "length ds < 32"
  shows "proofOf wh (leavesOf sh (ds @ [d])) (length ds) = proofOf wh (leavesOf sh ds) (length ds)"
    and "foldl (combine wh) 0 (proofOf wh (leavesOf sh ds) (length ds)) =
           subtreeHash wh (leavesOf sh ds) 5 0"
    and "foldl (combine wh) (sh d) (proofOf wh (leavesOf sh ds) (length ds)) =
           subtreeHash wh (leavesOf sh (ds @ [d])) 5 0"
proof -
  have upd: "leavesOf sh (ds @ [d]) = (leavesOf sh ds)[length ds := sh d]"
    using leavesOf_snoc[OF n, of sh d] by simp
  show same: "proofOf wh (leavesOf sh (ds @ [d])) (length ds) =
      proofOf wh (leavesOf sh ds) (length ds)"
    by (simp only: upd proofOf_update_self)
  have z: "leavesOf sh ds ! length ds = 0"
    using n by (simp add: leavesOf_def nth_append)
  show "foldl (combine wh) 0 (proofOf wh (leavesOf sh ds) (length ds)) =
           subtreeHash wh (leavesOf sh ds) 5 0"
    using replay_proofOf[OF n, of wh "leavesOf sh ds"] by (simp only: z)
  have v: "leavesOf sh (ds @ [d]) ! length ds = sh d"
    using leavesOf_nth[of "length ds" "ds @ [d]" sh] by simp
  show "foldl (combine wh) (sh d) (proofOf wh (leavesOf sh ds) (length ds)) =
           subtreeHash wh (leavesOf sh (ds @ [d])) 5 0"
    using replay_proofOf[OF n, of wh "leavesOf sh (ds @ [d])"] by (simp only: v same)
qed

section \<open>The claims\<close>

text \<open>
  C1 (as amended). The claim says that the rule combining two child hashes into the
  parent hash is sensitive to their order. The code hashes the sum of the two children
  (merkle\_tree.cpp, lines 53 and 114; merkle\_tree.hpp documents "the hash of the sum of
  its children's hashes"), so for every hash function and all child hashes \<open>l\<close> and
  \<open>r\<close>, combining \<open>(l, r)\<close> and combining \<open>(r, l)\<close> give the same parent hash.
\<close>

theorem combine_commutative: "combine wh l r = combine wh r l"
  by (simp add: combine_def add.commute)

text \<open>
  The claim C1 as stated fails: no hash function and no pair of child hashes are told
  apart by their order.
\<close>

theorem combine_order_sensitive_counterexample:
  "\<not> (\<exists>wh l r. combine wh l r \<noteq> combine wh r l)"
  by (simp add: combine_def add.commute)

text \<open>
  C8. For every leaf index below the capacity, \<open>getPathFromLeafToRoot\<close> returns
  \<open>treeHeight\<close> nodes: the first is the leaf (level \<open>treeHeight\<close>, the given index), each
  later node is one level up with the index of its predecessor halved, and the last node
  is on level 1.
\<close>

theorem getPathFromLeafToRoot_shape:
  assumes "index node < treeCapacity"
  shows "length (getPathFromLeafToRoot node) = unat treeHeight
    \<and> getPathFromLeafToRoot node ! 0 = \<lparr>level = treeHeight, index = index node\<rparr>
    \<and> (\<forall>j. Suc j < length (getPathFromLeafToRoot node) \<longrightarrow>
          level (getPathFromLeafToRoot node ! Suc j) = level (getPathFromLeafToRoot node ! j) - 1
        \<and> index (getPathFromLeafToRoot node ! Suc j) = index (getPathFromLeafToRoot node ! j) div 2)
    \<and> level (last (getPathFromLeafToRoot node)) = 1"
proof -
  let ?p = "getPathFromLeafToRoot node"
  have len: "length ?p = 5"
    by (simp add: getPathFromLeafToRoot_unrolled)
  have step: "level (?p ! Suc j) = level (?p ! j) - 1 \<and> index (?p ! Suc j) = index (?p ! j) div 2"
    if "Suc j < length ?p" for j
  proof -
    from that len have "j = 0 \<or> j = 1 \<or> j = 2 \<or> j = 3" by arith
    then show ?thesis
      by (elim disjE) (simp_all add: getPathFromLeafToRoot_unrolled)
  qed
  have "level (last ?p) = 1"
    by (simp add: getPathFromLeafToRoot_unrolled)
  moreover have "?p ! 0 = \<lparr>level = treeHeight, index = index node\<rparr>"
    by (simp add: getPathFromLeafToRoot_unrolled treeHeight_def)
  moreover have "length ?p = unat treeHeight"
    by (simp add: len treeHeight_def)
  ultimately show ?thesis
    using step by blast
qed

theorem getPathFromLeafToRoot_shape_witness:
  "(13 :: size_t) < treeCapacity
   \<and> length (getPathFromLeafToRoot \<lparr>level = 5, index = 13\<rparr>) = 5
   \<and> getPathFromLeafToRoot \<lparr>level = 5, index = 13\<rparr> ! 0 = \<lparr>level = 5, index = 13\<rparr>
   \<and> getPathFromLeafToRoot \<lparr>level = 5, index = 13\<rparr> ! 1 = \<lparr>level = 4, index = 6\<rparr>
   \<and> level (last (getPathFromLeafToRoot \<lparr>level = 5, index = 13\<rparr>)) = 1"
proof -
  have h: "index \<lparr>level = 5, index = 13 :: size_t\<rparr> < treeCapacity"
    by (simp add: treeCapacity_32)
  have "Suc 0 < length (getPathFromLeafToRoot \<lparr>level = 5, index = 13\<rparr>)"
    using getPathFromLeafToRoot_shape[OF h] by (simp add: treeHeight_def)
  then show ?thesis
    using getPathFromLeafToRoot_shape[OF h]
    by (simp add: treeHeight_def treeCapacity_32 getPathFromLeafToRoot_unrolled)
qed

text \<open>
  C2. Round trip: for a tree built by appending the items \<open>ds\<close> to the empty tree and
  every index below its size, \<open>getRootHash\<close> and \<open>generateProof\<close> succeed and
  \<open>verifyProof\<close> accepts the proof for the item appended at that index.
\<close>

theorem verifyProof_roundtrip:
  assumes "addAll sh wh ds construct = Inr t" and "idx < currentTreeSize t"
  shows "\<exists>r pf. getRootHash t = Inr r \<and> generateProof wh t idx = Inr pf
           \<and> verifyProof sh wh r pf (ds ! unat idx)"
  using built_tree_proof[OF assms] by (simp add: verifyProof_def)

theorem verifyProof_roundtrip_witness:
  "addAll exampleStringHash exampleWordHash [''data1'', ''data2'', ''data3''] construct =
     Inr \<lparr>currentRootHash = 887281282, currentTreeSize = 3,
          treeLeafNodes = [295760416, 295760417, 295760418] @ replicate 29 0\<rparr>
   \<and> (1 :: size_t) < 3
   \<and> generateProof exampleWordHash
        \<lparr>currentRootHash = 887281282, currentTreeSize = 3,
         treeLeafNodes = [295760416, 295760417, 295760418] @ replicate 29 0\<rparr> 1 =
       Inr [295760416, 295760419, 3, 7, 15]
   \<and> verifyProof exampleStringHash exampleWordHash 887281282
        [295760416, 295760419, 3, 7, 15] ''data2''"
proof -
  let ?t = "\<lparr>currentRootHash = 887281282, currentTreeSize = 3,
          treeLeafNodes = [295760416, 295760417, 295760418] @ replicate 29 (0 :: hash_t)\<rparr>"
  have a: "addAll exampleStringHash exampleWordHash [''data1'', ''data2'', ''data3''] construct = Inr ?t"
    by (rule example_tree3)
  have b: "(1 :: size_t) < currentTreeSize ?t"
    by simp
  have r: "getRootHash ?t = Inr 887281282"
    by code_simp
  have p: "generateProof exampleWordHash ?t 1 = Inr [295760416, 295760419, 3, 7, 15]"
    by code_simp
  show ?thesis
    using verifyProof_roundtrip[OF a b] a r p by simp
qed

text \<open>
  C3. Tamper sensitivity: in a tree built from \<open>ds\<close>, the proof generated for an index
  below the size is rejected against the current root for every data whose hash differs
  from the hash of the item at that index, provided that \<open>std::hash<hash_t>\<close> does not
  collide on the sums it is given while the proof is replayed from either of the two leaf
  hashes.
\<close>

theorem verifyProof_tamper:
  assumes "addAll sh wh ds construct = Inr t" and "idx < currentTreeSize t"
    and "getRootHash t = Inr r" and "generateProof wh t idx = Inr pf"
    and "sh d' \<noteq> sh (ds ! unat idx)"
    and "inj_on wh (set (replaySums wh (sh (ds ! unat idx)) pf) \<union> set (replaySums wh (sh d') pf))"
  shows "\<not> verifyProof sh wh r pf d'"
proof -
  note p = built_tree_proof[OF assms(1,2)]
  from p(1) assms(3) have r: "r = rootOf sh wh ds" by simp
  from p(2) assms(4) have pf: "pf = proofOf wh (leavesOf sh ds) (unat idx)" by simp
  have "foldl (combine wh) (sh (ds ! unat idx)) pf \<noteq> foldl (combine wh) (sh d') pf"
    using assms(6) assms(5)[symmetric] by (rule replay_distinct)
  then show ?thesis
    using p(3) by (auto simp: verifyProof_def r pf)
qed

theorem verifyProof_tamper_witness:
  "addAll exampleStringHash exampleWordHash [''data1'', ''data2'', ''data3''] construct =
     Inr \<lparr>currentRootHash = 887281282, currentTreeSize = 3,
          treeLeafNodes = [295760416, 295760417, 295760418] @ replicate 29 0\<rparr>
   \<and> exampleStringHash ''fake data'' \<noteq> exampleStringHash ''data2''
   \<and> \<not> verifyProof exampleStringHash exampleWordHash 887281282
        [295760416, 295760419, 3, 7, 15] ''fake data''"
proof -
  let ?t = "\<lparr>currentRootHash = 887281282, currentTreeSize = 3,
          treeLeafNodes = [295760416, 295760417, 295760418] @ replicate 29 (0 :: hash_t)\<rparr>"
  let ?ds = "[''data1'', ''data2'', ''data3'']"
  let ?pf = "[295760416, 295760419, 3, 7, 15] :: hash_t list"
  have a: "addAll exampleStringHash exampleWordHash ?ds construct = Inr ?t"
    by (rule example_tree3)
  have b: "(1 :: size_t) < currentTreeSize ?t"
    by simp
  have r: "getRootHash ?t = Inr 887281282"
    by code_simp
  have p: "generateProof exampleWordHash ?t 1 = Inr ?pf"
    by code_simp
  have d: "exampleStringHash ''fake data'' \<noteq> exampleStringHash (?ds ! unat (1 :: size_t))"
    by (simp add: exampleStringHash_def)
  have inj: "inj_on exampleWordHash
      (set (replaySums exampleWordHash (exampleStringHash (?ds ! unat (1 :: size_t))) ?pf)
       \<union> set (replaySums exampleWordHash (exampleStringHash ''fake data'') ?pf))"
    by (rule inj_on_subset[of _ UNIV]) (simp_all add: inj_on_def exampleWordHash_def)
  have c: "\<not> verifyProof exampleStringHash exampleWordHash 887281282 ?pf ''fake data''"
    by (rule verifyProof_tamper[OF a b r p d inj])
  from d have d': "exampleStringHash ''fake data'' \<noteq> exampleStringHash ''data2''"
    by simp
  from a d' c show ?thesis
    by (intro conjI)
qed

text \<open>
  C7 (as amended). Staleness. A proof generated for an index of a tree built from \<open>ds\<close>
  is a snapshot: for the item at that index it verifies against the root it was generated
  under and against no other value. After exactly one further successful append the root
  differs from the old root, so the old proof is rejected against the new root, provided
  that the hash of the appended item is not the placeholder 0 and \<open>std::hash<hash_t>\<close>
  does not collide on the sums on the path from the new leaf to the root, before and
  after the append (the sums replayed from 0 and from the hash of the new item along the
  proof of the new leaf).
\<close>

theorem verifyProof_stale:
  assumes "addAll sh wh ds construct = Inr t1" and "idx < currentTreeSize t1"
    and "generateProof wh t1 idx = Inr pf" and "getRootHash t1 = Inr r1"
  shows "(\<forall>r. verifyProof sh wh r pf (ds ! unat idx) \<longleftrightarrow> r = r1)
    \<and> (\<forall>d t2 r2 newpf.
          addHashOf sh wh d t1 = (Inr (), t2) \<and> getRootHash t2 = Inr r2
          \<and> generateProof wh t2 (currentTreeSize t1) = Inr newpf
          \<and> sh d \<noteq> 0
          \<and> inj_on wh (set (replaySums wh 0 newpf) \<union> set (replaySums wh (sh d) newpf))
          \<longrightarrow> r2 \<noteq> r1 \<and> \<not> verifyProof sh wh r2 pf (ds ! unat idx))"
proof -
  note b = built_tree[OF assms(1)]
  note inv = built_tree_invariant[OF assms(1)]
  note p = built_tree_proof[OF assms(1,2)]
  from p(1) assms(4) have r1: "r1 = rootOf sh wh ds" by simp
  from p(2) assms(3) have pf: "pf = proofOf wh (leavesOf sh ds) (unat idx)" by simp
  have replay: "foldl (combine wh) (sh (ds ! unat idx)) pf = r1"
    using p(3) by (simp add: r1 pf)
  have snapshot: "verifyProof sh wh r pf (ds ! unat idx) \<longleftrightarrow> r = r1" for r
    using replay by (auto simp: verifyProof_def)
  from assms(2) inv(2) have "unat idx < length ds"
    by (simp add: word_less_nat_alt)
  then have ne: "ds \<noteq> []" by auto
  have fresh: "r2 \<noteq> r1 \<and> \<not> verifyProof sh wh r2 pf (ds ! unat idx)"
    if h: "addHashOf sh wh d t1 = (Inr (), t2) \<and> getRootHash t2 = Inr r2
          \<and> generateProof wh t2 (currentTreeSize t1) = Inr newpf
          \<and> sh d \<noteq> 0
          \<and> inj_on wh (set (replaySums wh 0 newpf) \<union> set (replaySums wh (sh d) newpf))"
    for d t2 r2 newpf
  proof -
    have n: "length ds < 32"
    proof (rule ccontr)
      assume "\<not> length ds < 32"
      with b(1) have "length ds = 32" by simp
      then have "addHashOf sh wh d t1 = (Inl MerkleTreeFullException, t1)"
        unfolding b(2) by (rule addHashOf_treeOf_full)
      with h show False by simp
    qed
    have t2: "t2 = treeOf sh wh (ds @ [d])"
      using addHashOf_treeOf[OF n, of sh wh d] h b(2) by simp
    have built2: "addAll sh wh (ds @ [d]) construct = Inr t2"
      using n by (simp add: addAll_construct_iff t2)
    have sz1: "currentTreeSize t1 = of_nat (length ds)"
      by (simp add: b(2) treeOf_def)
    have u: "unat (currentTreeSize t1) = length ds"
      by (rule inv(2))
    have lt2: "currentTreeSize t1 < currentTreeSize t2"
      using n u built_tree_invariant(2)[OF built2] by (simp add: word_less_nat_alt)
    note p2 = built_tree_proof[OF built2 lt2]
    from p2(2) h have newpf: "newpf = proofOf wh (leavesOf sh (ds @ [d])) (length ds)"
      by (simp add: u)
    from p2(1) h have r2: "r2 = rootOf sh wh (ds @ [d])" by simp
    note a = append_roots(1)[OF n, of wh sh d] append_roots(2)[OF n, of wh sh]
      append_roots(3)[OF n, of wh sh d]
    have newpf': "newpf = proofOf wh (leavesOf sh ds) (length ds)"
      by (simp only: newpf a(1))
    have old: "foldl (combine wh) 0 newpf = r1"
      using a(2) ne by (simp add: newpf' r1 rootOf_def)
    have new: "foldl (combine wh) (sh d) newpf = r2"
      using a(3) by (simp add: newpf' r2 rootOf_def)
    from h have inj: "inj_on wh (set (replaySums wh 0 newpf) \<union> set (replaySums wh (sh d) newpf))"
      and nz: "0 \<noteq> sh d" by auto
    from replay_distinct[OF inj nz] old new have "r2 \<noteq> r1" by auto
    then show ?thesis by (simp add: snapshot)
  qed
  from snapshot fresh show ?thesis
    by blast
qed

theorem verifyProof_stale_witness:
  "addHashOf exampleStringHash exampleWordHash ''data4''
     \<lparr>currentRootHash = 887281282, currentTreeSize = 3,
      treeLeafNodes = [295760416, 295760417, 295760418] @ replicate 29 0\<rparr> =
     (Inr (), \<lparr>currentRootHash = 1183041701, currentTreeSize = 4,
          treeLeafNodes = [295760416, 295760417, 295760418, 295760419] @ replicate 28 0\<rparr>)
   \<and> generateProof exampleWordHash
        \<lparr>currentRootHash = 1183041701, currentTreeSize = 4,
         treeLeafNodes = [295760416, 295760417, 295760418, 295760419] @ replicate 28 0\<rparr> 3 =
       Inr [295760418, 591520834, 3, 7, 15]
   \<and> exampleStringHash ''data4'' \<noteq> 0
   \<and> verifyProof exampleStringHash exampleWordHash 887281282
        [295760416, 295760419, 3, 7, 15] ''data2''
   \<and> (1183041701 :: hash_t) \<noteq> 887281282
   \<and> \<not> verifyProof exampleStringHash exampleWordHash 1183041701
        [295760416, 295760419, 3, 7, 15] ''data2''"
proof -
  let ?t1 = "\<lparr>currentRootHash = 887281282, currentTreeSize = 3,
          treeLeafNodes = [295760416, 295760417, 295760418] @ replicate 29 (0 :: hash_t)\<rparr>"
  let ?t2 = "\<lparr>currentRootHash = 1183041701, currentTreeSize = 4,
          treeLeafNodes = [295760416, 295760417, 295760418, 295760419] @ replicate 28 (0 :: hash_t)\<rparr>"
  let ?ds = "[''data1'', ''data2'', ''data3'']"
  let ?pf = "[295760416, 295760419, 3, 7, 15] :: hash_t list"
  let ?newpf = "[295760418, 591520834, 3, 7, 15] :: hash_t list"
  have b: "(1 :: size_t) < currentTreeSize ?t1"
    by simp
  have p: "generateProof exampleWordHash ?t1 1 = Inr ?pf"
    by code_simp
  have r1: "getRootHash ?t1 = Inr 887281282"
    by code_simp
  have m: "addHashOf exampleStringHash exampleWordHash ''data4'' ?t1 = (Inr (), ?t2)"
    by code_simp
  have r2: "getRootHash ?t2 = Inr 1183041701"
    by code_simp
  have np: "generateProof exampleWordHash ?t2 3 = Inr ?newpf"
    by code_simp
  have nz: "exampleStringHash ''data4'' \<noteq> 0"
    by (simp add: exampleStringHash_def)
  have inj: "inj_on exampleWordHash
      (set (replaySums exampleWordHash 0 ?newpf)
       \<union> set (replaySums exampleWordHash (exampleStringHash ''data4'') ?newpf))"
    by (rule inj_on_subset[of _ UNIV]) (simp_all add: inj_on_def exampleWordHash_def)
  note x = verifyProof_stale[OF example_tree3 b p r1]
  from x have "verifyProof exampleStringHash exampleWordHash 887281282 ?pf (?ds ! unat (1 :: size_t))"
    by blast
  then have v1: "verifyProof exampleStringHash exampleWordHash 887281282 ?pf ''data2''"
    by simp
  have np': "generateProof exampleWordHash ?t2 (currentTreeSize ?t1) = Inr ?newpf"
    using np by simp
  from x m r2 np' nz inj
  have "(1183041701 :: hash_t) \<noteq> 887281282
      \<and> \<not> verifyProof exampleStringHash exampleWordHash 1183041701 ?pf (?ds ! unat (1 :: size_t))"
    by blast
  then have v2: "(1183041701 :: hash_t) \<noteq> 887281282"
    and v3: "\<not> verifyProof exampleStringHash exampleWordHash 1183041701 ?pf ''data2''"
    by simp_all
  from m np nz v1 v2 v3 show ?thesis
    by (intro conjI)
qed

text \<open>
  The claim C7 as stated fails for two further appends, with no hash collision: with the
  identity as \<open>std::hash<hash_t>\<close> and a string hash that gives the five items five
  different hashes, none of them 0, the items \<open>data4\<close> and \<open>data5\<close> have the leaf hashes
  5 and -5. Their sum is 0, the root after the two appends is the root before them, and
  the proof taken before them for \<open>data2\<close> is accepted against the new root.
\<close>

theorem verifyProof_stale_counterexample:
  "addAll cancellingStringHash (\<lambda>x. x) [''data1'', ''data2'', ''data3''] construct =
     Inr \<lparr>currentRootHash = 887281251, currentTreeSize = 3,
          treeLeafNodes = [295760416, 295760417, 295760418] @ replicate 29 0\<rparr>
   \<and> generateProof (\<lambda>x. x)
        \<lparr>currentRootHash = 887281251, currentTreeSize = 3,
         treeLeafNodes = [295760416, 295760417, 295760418] @ replicate 29 0\<rparr> 1 =
       Inr [295760416, 295760418, 0, 0, 0]
   \<and> addAll cancellingStringHash (\<lambda>x. x) [''data4'', ''data5'']
        \<lparr>currentRootHash = 887281251, currentTreeSize = 3,
         treeLeafNodes = [295760416, 295760417, 295760418] @ replicate 29 0\<rparr> =
       Inr \<lparr>currentRootHash = 887281251, currentTreeSize = 5,
            treeLeafNodes = [295760416, 295760417, 295760418, 5, - 5] @ replicate 27 0\<rparr>
   \<and> getRootHash
        \<lparr>currentRootHash = 887281251, currentTreeSize = 5,
         treeLeafNodes = [295760416, 295760417, 295760418, 5, - 5] @ replicate 27 0\<rparr> =
       Inr 887281251
   \<and> verifyProof cancellingStringHash (\<lambda>x. x) 887281251
        [295760416, 295760418, 0, 0, 0] ''data2''
   \<and> distinct (map cancellingStringHash [''data1'', ''data2'', ''data3'', ''data4'', ''data5''])
   \<and> 0 \<notin> set (map cancellingStringHash [''data1'', ''data2'', ''data3'', ''data4'', ''data5''])
   \<and> inj (\<lambda>x :: hash_t. x)"
proof -
  let ?t1 = "\<lparr>currentRootHash = 887281251, currentTreeSize = 3,
          treeLeafNodes = [295760416, 295760417, 295760418] @ replicate 29 (0 :: hash_t)\<rparr>"
  let ?t2 = "\<lparr>currentRootHash = 887281251, currentTreeSize = 5,
          treeLeafNodes = [295760416, 295760417, 295760418, 5, - 5] @ replicate 27 (0 :: hash_t)\<rparr>"
  have a: "addAll cancellingStringHash (\<lambda>x. x) [''data1'', ''data2'', ''data3''] construct = Inr ?t1"
    by code_simp
  have p: "generateProof (\<lambda>x. x) ?t1 1 = Inr [295760416, 295760418, 0, 0, 0]"
    by code_simp
  have m: "addAll cancellingStringHash (\<lambda>x. x) [''data4'', ''data5''] ?t1 = Inr ?t2"
    by code_simp
  have r: "getRootHash ?t2 = Inr 887281251"
    by code_simp
  have v: "verifyProof cancellingStringHash (\<lambda>x. x) 887281251
        [295760416, 295760418, 0, 0, 0] ''data2''"
    by code_simp
  have hs: "map cancellingStringHash [''data1'', ''data2'', ''data3'', ''data4'', ''data5''] =
      [295760416, 295760417, 295760418, 5, - 5]"
    by code_simp
  have d: "distinct (map cancellingStringHash [''data1'', ''data2'', ''data3'', ''data4'', ''data5''])"
    unfolding hs by simp
  have z: "0 \<notin> set (map cancellingStringHash [''data1'', ''data2'', ''data3'', ''data4'', ''data5''])"
    unfolding hs by simp
  have i: "inj (\<lambda>x :: hash_t. x)"
    by simp
  from a p m r v d z i show ?thesis
    by (intro conjI)
qed

text \<open>
  C5. \<open>addHashOf\<close> is all-or-nothing. On a tree that satisfies the invariant (every tree
  built by appending does, see \<open>built_tree_treeInvariant\<close>): if the tree is full the call
  fails with \<open>MerkleTreeFullException\<close> and returns the tree as it was; otherwise it
  succeeds, the leaf hash is stored at index \<open>currentTreeSize\<close>, the size is one more,
  all other leaves are as before, and the stored root hash is the node hash of (0, 0)
  over the new leaf array.
\<close>

theorem addHashOf_all_or_nothing:
  assumes "treeInvariant t"
  shows "(isFull t \<longrightarrow> addHashOf sh wh d t = (Inl MerkleTreeFullException, t))
    \<and> (\<not> isFull t \<longrightarrow>
         (\<exists>t'. addHashOf sh wh d t = (Inr (), t')
            \<and> treeLeafNodes t' = (treeLeafNodes t)[unat (currentTreeSize t) := sh d]
            \<and> treeLeafNodes t' ! unat (currentTreeSize t) = sh d
            \<and> currentTreeSize t' = currentTreeSize t + 1
            \<and> getNodeHash wh t' \<lparr>level = 0, index = 0\<rparr> = Inr (currentRootHash t')))"
proof (intro conjI impI)
  assume "isFull t"
  then show "addHashOf sh wh d t = (Inl MerkleTreeFullException, t)"
    by (simp add: addHashOf_def)
next
  assume nf: "\<not> isFull t"
  from assms have len: "length (treeLeafNodes t) = 32" and le: "unat (currentTreeSize t) \<le> 32"
    by (simp_all add: treeInvariant_unat)
  from nf have "unat (currentTreeSize t) \<noteq> unat (32 :: size_t)"
    unfolding isFull_def treeCapacity_32 by (simp only: word_unat_eq_iff not_False_eq_True)
  with le have lt: "unat (currentTreeSize t) < 32" by simp
  let ?t' = "\<lparr>currentRootHash =
         subtreeHash wh ((treeLeafNodes t)[unat (currentTreeSize t) := sh d]) 5 0,
       currentTreeSize = currentTreeSize t + 1,
       treeLeafNodes = (treeLeafNodes t)[unat (currentTreeSize t) := sh d]\<rparr>"
  have "addHashOf sh wh d t = (Inr (), ?t')"
    using assms nf by (rule addHashOf_not_full)
  moreover have "getNodeHash wh ?t' \<lparr>level = 0, index = 0\<rparr> = Inr (currentRootHash ?t')"
    using getNodeHash_root[of ?t' wh] by (simp add: len)
  moreover have "treeLeafNodes ?t' ! unat (currentTreeSize t) = sh d"
    using lt by (simp add: len)
  ultimately show "\<exists>t'. addHashOf sh wh d t = (Inr (), t')
            \<and> treeLeafNodes t' = (treeLeafNodes t)[unat (currentTreeSize t) := sh d]
            \<and> treeLeafNodes t' ! unat (currentTreeSize t) = sh d
            \<and> currentTreeSize t' = currentTreeSize t + 1
            \<and> getNodeHash wh t' \<lparr>level = 0, index = 0\<rparr> = Inr (currentRootHash t')"
    by (intro exI[of _ ?t']) simp
qed

theorem addHashOf_all_or_nothing_witness:
  "treeInvariant \<lparr>currentRootHash = 305301055, currentTreeSize = 32,
        treeLeafNodes = replicate 32 9540657\<rparr>
   \<and> isFull \<lparr>currentRootHash = 305301055, currentTreeSize = 32,
        treeLeafNodes = replicate 32 9540657\<rparr>
   \<and> addHashOf exampleStringHash exampleWordHash ''33rd data node''
        \<lparr>currentRootHash = 305301055, currentTreeSize = 32,
         treeLeafNodes = replicate 32 9540657\<rparr> =
       (Inl MerkleTreeFullException,
        \<lparr>currentRootHash = 305301055, currentTreeSize = 32,
         treeLeafNodes = replicate 32 9540657\<rparr>)
   \<and> treeInvariant \<lparr>currentRootHash = 887281282, currentTreeSize = 3,
          treeLeafNodes = [295760416, 295760417, 295760418] @ replicate 29 0\<rparr>
   \<and> \<not> isFull \<lparr>currentRootHash = 887281282, currentTreeSize = 3,
          treeLeafNodes = [295760416, 295760417, 295760418] @ replicate 29 0\<rparr>
   \<and> (\<exists>t'. addHashOf exampleStringHash exampleWordHash ''data4''
          \<lparr>currentRootHash = 887281282, currentTreeSize = 3,
           treeLeafNodes = [295760416, 295760417, 295760418] @ replicate 29 0\<rparr> = (Inr (), t')
        \<and> treeLeafNodes t' ! 3 = exampleStringHash ''data4''
        \<and> currentTreeSize t' = 4
        \<and> getNodeHash exampleWordHash t' \<lparr>level = 0, index = 0\<rparr> = Inr (currentRootHash t'))"
proof -
  let ?f = "\<lparr>currentRootHash = 305301055, currentTreeSize = 32,
        treeLeafNodes = replicate 32 (9540657 :: hash_t)\<rparr>"
  let ?t = "\<lparr>currentRootHash = 887281282, currentTreeSize = 3,
          treeLeafNodes = [295760416, 295760417, 295760418] @ replicate 29 (0 :: hash_t)\<rparr>"
  have invf: "treeInvariant ?f"
    using example_full_tree by (rule built_tree_treeInvariant)
  have full: "isFull ?f"
    by (simp add: isFull_def treeCapacity_32)
  have invt: "treeInvariant ?t"
    using example_tree3 by (rule built_tree_treeInvariant)
  have nfull: "\<not> isFull ?t"
    by (simp add: isFull_def treeCapacity_32)
  have f1: "addHashOf exampleStringHash exampleWordHash ''33rd data node'' ?f =
      (Inl MerkleTreeFullException, ?f)"
    using addHashOf_all_or_nothing[OF invf, of exampleStringHash exampleWordHash "''33rd data node''"]
      full by blast
  have f2: "\<exists>t'. addHashOf exampleStringHash exampleWordHash ''data4'' ?t = (Inr (), t')
        \<and> treeLeafNodes t' ! 3 = exampleStringHash ''data4''
        \<and> currentTreeSize t' = 4
        \<and> getNodeHash exampleWordHash t' \<lparr>level = 0, index = 0\<rparr> = Inr (currentRootHash t')"
    using addHashOf_all_or_nothing[OF invt, of exampleStringHash exampleWordHash "''data4''"]
      nfull by simp blast
  from invf full f1 invt nfull f2 show ?thesis
    by (intro conjI)
qed

text \<open>
  C6. Error boundaries, on a tree that satisfies the invariant (every tree built by
  appending does): \<open>addHashOf\<close> fails with \<open>MerkleTreeFullException\<close> exactly when the
  size equals the capacity and succeeds otherwise; \<open>getRootHash\<close> and \<open>generateProof\<close>
  fail with \<open>MerkleTreeEmptyException\<close> exactly when the size is 0; on a non-empty tree
  \<open>generateProof i\<close> fails with \<open>MerkleNodeIndexOutOfRangeException\<close> exactly when
  \<open>i \<ge> size\<close>; otherwise \<open>getRootHash\<close> returns the stored root and \<open>generateProof\<close>
  returns a proof of \<open>treeHeight\<close> hashes.
\<close>

theorem error_boundaries:
  assumes "treeInvariant t"
  shows "(fst (addHashOf sh wh d t) = Inl MerkleTreeFullException \<longleftrightarrow>
            currentTreeSize t = treeCapacity)
    \<and> (currentTreeSize t \<noteq> treeCapacity \<longrightarrow> fst (addHashOf sh wh d t) = Inr ())
    \<and> (getRootHash t = Inl MerkleTreeEmptyException \<longleftrightarrow> currentTreeSize t = 0)
    \<and> (currentTreeSize t \<noteq> 0 \<longrightarrow> getRootHash t = Inr (currentRootHash t))
    \<and> (generateProof wh t i = Inl MerkleTreeEmptyException \<longleftrightarrow> currentTreeSize t = 0)
    \<and> (currentTreeSize t \<noteq> 0 \<longrightarrow>
          (generateProof wh t i = Inl MerkleNodeIndexOutOfRangeException \<longleftrightarrow>
             i \<ge> currentTreeSize t))
    \<and> (i < currentTreeSize t \<longrightarrow>
          (\<exists>pf. generateProof wh t i = Inr pf \<and> length pf = unat treeHeight))"
proof -
  have add_full: "fst (addHashOf sh wh d t) = Inl MerkleTreeFullException"
    if "currentTreeSize t = treeCapacity"
    using that by (simp add: addHashOf_def isFull_def)
  have add_ok: "fst (addHashOf sh wh d t) = Inr ()" if "currentTreeSize t \<noteq> treeCapacity"
    using addHashOf_not_full[OF assms, of sh wh d] that by (simp add: isFull_def)
  have root: "getRootHash t = Inl MerkleTreeEmptyException \<longleftrightarrow> currentTreeSize t = 0"
    by (simp add: getRootHash_def isEmpty_def)
  have root_ok: "getRootHash t = Inr (currentRootHash t)" if "currentTreeSize t \<noteq> 0"
    using that by (simp add: getRootHash_def isEmpty_def)
  have gp_ok: "generateProof wh t i = Inr (proofOf wh (treeLeafNodes t) (unat i))"
    if "i < currentTreeSize t"
    using assms that by (rule index_below_treeInvariant)
  have gp_range: "generateProof wh t i = Inl MerkleNodeIndexOutOfRangeException"
    if "currentTreeSize t \<noteq> 0" "currentTreeSize t \<le> i"
    using that by (simp add: generateProof_def isEmpty_def)
  have gp_empty: "generateProof wh t i = Inl MerkleTreeEmptyException"
    if "currentTreeSize t = 0"
    using that by (simp add: generateProof_def isEmpty_def)
  have c1: "fst (addHashOf sh wh d t) = Inl MerkleTreeFullException \<longleftrightarrow>
            currentTreeSize t = treeCapacity"
    using add_full add_ok by (cases "currentTreeSize t = treeCapacity") simp_all
  have c5: "generateProof wh t i = Inl MerkleTreeEmptyException \<longleftrightarrow> currentTreeSize t = 0"
  proof (cases "currentTreeSize t = 0")
    case True
    then show ?thesis using gp_empty by simp
  next
    case False
    then show ?thesis
      using gp_range gp_ok by (cases "i < currentTreeSize t") (simp_all add: not_less)
  qed
  have c6: "generateProof wh t i = Inl MerkleNodeIndexOutOfRangeException \<longleftrightarrow>
             i \<ge> currentTreeSize t" if "currentTreeSize t \<noteq> 0"
    using gp_range[OF that] gp_ok by (cases "i < currentTreeSize t") (simp_all add: not_less)
  have c7: "\<exists>pf. generateProof wh t i = Inr pf \<and> length pf = unat treeHeight"
    if "i < currentTreeSize t"
    using gp_ok[OF that] by (simp add: proofOf_def treeHeight_def)
  from c1 add_ok root root_ok c5 c6 c7 show ?thesis
    by (intro conjI impI)
qed

theorem error_boundaries_witness:
  "treeInvariant construct
   \<and> fst (addHashOf exampleStringHash exampleWordHash ''data1'' construct) = Inr ()
   \<and> getRootHash construct = Inl MerkleTreeEmptyException
   \<and> generateProof exampleWordHash construct 0 = Inl MerkleTreeEmptyException
   \<and> treeInvariant \<lparr>currentRootHash = 887281282, currentTreeSize = 3,
          treeLeafNodes = [295760416, 295760417, 295760418] @ replicate 29 0\<rparr>
   \<and> getRootHash \<lparr>currentRootHash = 887281282, currentTreeSize = 3,
          treeLeafNodes = [295760416, 295760417, 295760418] @ replicate 29 0\<rparr> = Inr 887281282
   \<and> generateProof exampleWordHash \<lparr>currentRootHash = 887281282, currentTreeSize = 3,
          treeLeafNodes = [295760416, 295760417, 295760418] @ replicate 29 0\<rparr> 3 =
        Inl MerkleNodeIndexOutOfRangeException
   \<and> (\<exists>pf. generateProof exampleWordHash \<lparr>currentRootHash = 887281282, currentTreeSize = 3,
          treeLeafNodes = [295760416, 295760417, 295760418] @ replicate 29 0\<rparr> 2 = Inr pf
         \<and> length pf = 5)
   \<and> treeInvariant \<lparr>currentRootHash = 305301055, currentTreeSize = 32,
        treeLeafNodes = replicate 32 9540657\<rparr>
   \<and> fst (addHashOf exampleStringHash exampleWordHash ''33rd data node''
        \<lparr>currentRootHash = 305301055, currentTreeSize = 32,
         treeLeafNodes = replicate 32 9540657\<rparr>) = Inl MerkleTreeFullException"
proof -
  let ?f = "\<lparr>currentRootHash = 305301055, currentTreeSize = 32,
        treeLeafNodes = replicate 32 (9540657 :: hash_t)\<rparr>"
  let ?t = "\<lparr>currentRootHash = 887281282, currentTreeSize = 3,
          treeLeafNodes = [295760416, 295760417, 295760418] @ replicate 29 (0 :: hash_t)\<rparr>"
  have inve: "treeInvariant construct"
    by (simp add: treeInvariant_unat construct_def treeCapacity_32)
  have invt: "treeInvariant ?t"
    using example_tree3 by (rule built_tree_treeInvariant)
  have invf: "treeInvariant ?f"
    using example_full_tree by (rule built_tree_treeInvariant)
  note e = error_boundaries[OF inve, where sh = exampleStringHash and d = "''data1''" and wh = exampleWordHash and i = 0]
  note t3 = error_boundaries[OF invt, where sh = exampleStringHash and d = "''data4''" and wh = exampleWordHash and i = 3]
  note t2 = error_boundaries[OF invt, where sh = exampleStringHash and d = "''data4''" and wh = exampleWordHash and i = 2]
  note f = error_boundaries[OF invf, where sh = exampleStringHash and d = "''33rd data node''" and wh = exampleWordHash and i = 0]
  have e1: "fst (addHashOf exampleStringHash exampleWordHash ''data1'' construct) = Inr ()"
    using e by (simp add: construct_def treeCapacity_32)
  have e2: "getRootHash construct = Inl MerkleTreeEmptyException"
    using e by (simp add: construct_def)
  have e3: "generateProof exampleWordHash construct 0 = Inl MerkleTreeEmptyException"
    using e by (simp add: construct_def)
  have a1: "getRootHash ?t = Inr 887281282"
    using t3 by simp
  have a2: "generateProof exampleWordHash ?t 3 = Inl MerkleNodeIndexOutOfRangeException"
    using t3 by simp
  have a3: "\<exists>pf. generateProof exampleWordHash ?t 2 = Inr pf \<and> length pf = 5"
    using t2 by (simp add: treeHeight_def)
  have f1: "fst (addHashOf exampleStringHash exampleWordHash ''33rd data node'' ?f) =
      Inl MerkleTreeFullException"
    using f by (simp add: treeCapacity_32)
  from inve e1 e2 e3 invt a1 a2 a3 invf f1 show ?thesis
    by (intro conjI)
qed

text \<open>
  C4 (as amended). In every tree built by at least one successful append, the stored
  \<open>currentRootHash\<close> is the node hash of (0, 0) recomputed over the current leaf array.
  The freshly constructed tree stores the placeholder 0 (merkle\_tree.hpp: "The initial
  root hash is overwritten as soon as the first data node is inserted"); it is the
  recomputed node hash when \<open>std::hash<hash_t>\<close> maps 0 to 0, as an identity hash does.
\<close>

theorem stored_root_recomputed:
  assumes "addAll sh wh ds construct = Inr t"
  shows "(ds \<noteq> [] \<longrightarrow> getNodeHash wh t \<lparr>level = 0, index = 0\<rparr> = Inr (currentRootHash t))
    \<and> (ds = [] \<longrightarrow> t = construct \<and> currentRootHash t = 0)
    \<and> (ds = [] \<and> wh 0 = 0 \<longrightarrow>
          getNodeHash wh t \<lparr>level = 0, index = 0\<rparr> = Inr (currentRootHash t))"
proof -
  have nonempty: "getNodeHash wh t \<lparr>level = 0, index = 0\<rparr> = Inr (currentRootHash t)"
    if "ds \<noteq> []"
    using assms that by (rule built_tree_root)
  have fresh: "t = construct \<and> currentRootHash t = 0" if "ds = []"
    using assms that by (auto simp: construct_def)
  have fixed: "getNodeHash wh t \<lparr>level = 0, index = 0\<rparr> = Inr (currentRootHash t)"
    if "ds = [] \<and> wh 0 = 0"
    using fresh that construct_root_zero[of wh] by auto
  from nonempty fresh fixed show ?thesis
    by blast
qed

theorem stored_root_recomputed_witness:
  "addAll exampleStringHash exampleWordHash [''data1'', ''data2'', ''data3''] construct =
     Inr \<lparr>currentRootHash = 887281282, currentTreeSize = 3,
          treeLeafNodes = [295760416, 295760417, 295760418] @ replicate 29 0\<rparr>
   \<and> getNodeHash exampleWordHash
        \<lparr>currentRootHash = 887281282, currentTreeSize = 3,
         treeLeafNodes = [295760416, 295760417, 295760418] @ replicate 29 0\<rparr>
        \<lparr>level = 0, index = 0\<rparr> = Inr 887281282
   \<and> addAll exampleStringHash (\<lambda>x. x) [] construct = Inr construct
   \<and> getNodeHash (\<lambda>x. x) construct \<lparr>level = 0, index = 0\<rparr> = Inr 0"
proof -
  have e: "addAll exampleStringHash (\<lambda>x. x) [] construct = Inr construct"
    by simp
  have "getNodeHash exampleWordHash
        \<lparr>currentRootHash = 887281282, currentTreeSize = 3,
         treeLeafNodes = [295760416, 295760417, 295760418] @ replicate 29 0\<rparr>
        \<lparr>level = 0, index = 0\<rparr> = Inr 887281282"
    using stored_root_recomputed[OF example_tree3] by simp
  moreover have "getNodeHash (\<lambda>x. x) construct \<lparr>level = 0, index = 0\<rparr> = Inr 0"
    using stored_root_recomputed[OF e] by (simp add: construct_def)
  ultimately show ?thesis
    using example_tree3 e by (intro conjI)
qed

text \<open>
  The claim C4 as stated fails on the freshly constructed tree: with the successor as
  \<open>std::hash<hash_t>\<close>, the node hash of (0, 0) over the 32 zero leaves is 31, while the
  stored root hash is 0.
\<close>

theorem stored_root_fresh_tree_counterexample:
  "addAll exampleStringHash exampleWordHash [] construct = Inr construct
   \<and> currentRootHash construct = 0
   \<and> getNodeHash exampleWordHash construct \<lparr>level = 0, index = 0\<rparr> = Inr 31
   \<and> getNodeHash exampleWordHash construct \<lparr>level = 0, index = 0\<rparr>
       \<noteq> Inr (currentRootHash construct)"
proof -
  have "getNodeHash exampleWordHash construct \<lparr>level = 0, index = 0\<rparr> = Inr 31"
    by code_simp
  then show ?thesis
    by (simp add: construct_def)
qed

text \<open>
  C9. Determinism: two trees built by appending the same items in the same order to the
  empty tree return the same root hash, and that root hash is a function of the items
  alone: the hash of the subtree of height 5 over the hashes of the items followed by
  zeros.
\<close>

theorem root_hash_deterministic:
  assumes "addAll sh wh ds construct = Inr t1" and "addAll sh wh ds construct = Inr t2"
  shows "getRootHash t1 = getRootHash t2
    \<and> getRootHash t1 =
        (if ds = [] then Inl MerkleTreeEmptyException
         else Inr (subtreeHash wh (map sh ds @ replicate (32 - length ds) 0) 5 0))"
proof -
  note b1 = built_tree[OF assms(1)] and b2 = built_tree[OF assms(2)]
  have "length ds = 0 \<longleftrightarrow> (of_nat (length ds) :: size_t) = 0"
    using b1(1) unat_small[of "length ds"] by (auto simp: unat_eq_zero[symmetric] simp del: unat_eq_zero)
  then have "isEmpty t1 \<longleftrightarrow> ds = []"
    by (simp add: isEmpty_def b1(2) treeOf_def)
  then show ?thesis
    by (simp add: b1(2) b2(2) getRootHash_def rootOf_def leavesOf_def)
      (simp add: treeOf_def rootOf_def leavesOf_def)
qed

theorem root_hash_deterministic_witness:
  "addAll exampleStringHash exampleWordHash [''data1'', ''data2'', ''data3''] construct =
     Inr \<lparr>currentRootHash = 887281282, currentTreeSize = 3,
          treeLeafNodes = [295760416, 295760417, 295760418] @ replicate 29 0\<rparr>
   \<and> getRootHash \<lparr>currentRootHash = 887281282, currentTreeSize = 3,
          treeLeafNodes = [295760416, 295760417, 295760418] @ replicate 29 0\<rparr> =
       Inr (subtreeHash exampleWordHash
         (map exampleStringHash [''data1'', ''data2'', ''data3''] @ replicate 29 0) 5 0)"
  using root_hash_deterministic[OF example_tree3 example_tree3] example_tree3 by simp

text \<open>
  C10 (as amended). In a tree built by appending, exchange the leaf hashes stored at the
  sibling positions \<open>2 * k\<close> and \<open>2 * k + 1\<close> (both below the capacity). Then every node
  above the leaf level keeps its hash, every leaf node other than the two exchanged keeps
  its hash, the node hash of the root (0, 0) is unchanged, and for every other leaf below
  the size the proof generated before the exchange is also the proof generated after it
  and verifies against the root recomputed after the exchange. When the two leaf hashes
  differ, the leaf arrays before and after differ: two layouts with the same root.
\<close>

theorem exchange_sibling_leaves:
  assumes "addAll sh wh ds construct = Inr t" and "2 * k + 1 < unat treeCapacity"
  shows "(\<forall>node. unat (level node) < unat treeHeight \<and> unat (index node) < 2 ^ unat (level node) \<longrightarrow>
            getNodeHash wh (exchangeLeaves k t) node = getNodeHash wh t node)
    \<and> (\<forall>j. j < unat treeCapacity \<and> j \<noteq> 2 * k \<and> j \<noteq> 2 * k + 1 \<longrightarrow>
            getNodeHash wh (exchangeLeaves k t) \<lparr>level = treeHeight, index = of_nat j\<rparr> =
            getNodeHash wh t \<lparr>level = treeHeight, index = of_nat j\<rparr>)
    \<and> getNodeHash wh (exchangeLeaves k t) \<lparr>level = 0, index = 0\<rparr> =
        getNodeHash wh t \<lparr>level = 0, index = 0\<rparr>
    \<and> (\<forall>idx. idx < currentTreeSize t \<and> unat idx \<noteq> 2 * k \<and> unat idx \<noteq> 2 * k + 1 \<longrightarrow>
          (\<exists>r pf. generateProof wh t idx = Inr pf
             \<and> generateProof wh (exchangeLeaves k t) idx = Inr pf
             \<and> getNodeHash wh (exchangeLeaves k t) \<lparr>level = 0, index = 0\<rparr> = Inr r
             \<and> verifyProof sh wh r pf (ds ! unat idx)))
    \<and> (treeLeafNodes t ! (2 * k) \<noteq> treeLeafNodes t ! (2 * k + 1) \<longrightarrow>
          treeLeafNodes (exchangeLeaves k t) \<noteq> treeLeafNodes t)"
proof -
  note inv = built_tree_invariant[OF assms(1)]
  note len = inv(1)
  from assms(2) have k: "2 * k + 1 < 32"
    by (simp add: treeCapacity_32)
  let ?e = "exchangeLeaves k t"
  have len': "length (treeLeafNodes ?e) = 32"
    using len by (simp add: exchangeLeaves_def)
  have inner: "getNodeHash wh ?e node = getNodeHash wh t node"
    if "unat (level node) < unat treeHeight \<and> unat (index node) < 2 ^ unat (level node)" for node
    using that by (intro getNodeHash_exchange[OF len k]) (simp_all add: treeHeight_def)
  have leaf: "getNodeHash wh ?e \<lparr>level = treeHeight, index = of_nat j\<rparr> =
            getNodeHash wh t \<lparr>level = treeHeight, index = of_nat j\<rparr>"
    if "j < unat treeCapacity \<and> j \<noteq> 2 * k \<and> j \<noteq> 2 * k + 1" for j
  proof -
    from that have j: "j < 32" by (simp add: treeCapacity_32)
    have "treeLeafNodes ?e ! j = treeLeafNodes t ! j"
      using that by (simp add: exchangeLeaves_def)
    then show ?thesis
      by (simp add: getNodeHash_leaf[OF len j] getNodeHash_leaf[OF len' j])
  qed
  have root: "getNodeHash wh ?e \<lparr>level = 0, index = 0\<rparr> = getNodeHash wh t \<lparr>level = 0, index = 0\<rparr>"
    by (rule inner) (simp add: treeHeight_def)
  have proofs: "\<exists>r pf. generateProof wh t idx = Inr pf
             \<and> generateProof wh ?e idx = Inr pf
             \<and> getNodeHash wh ?e \<lparr>level = 0, index = 0\<rparr> = Inr r
             \<and> verifyProof sh wh r pf (ds ! unat idx)"
    if "idx < currentTreeSize t \<and> unat idx \<noteq> 2 * k \<and> unat idx \<noteq> 2 * k + 1" for idx
  proof -
    from that have lt: "idx < currentTreeSize t" by simp
    note p = built_tree_proof[OF assms(1) lt]
    have ls: "treeLeafNodes t = leavesOf sh ds"
      using built_tree(2)[OF assms(1)] by (simp add: treeOf_def)
    from lt inv(2) have "unat idx < length ds"
      by (simp add: word_less_nat_alt)
    then have ne: "ds \<noteq> []" by auto
    have sz: "unat (currentTreeSize ?e) \<le> 32" and lt': "idx < currentTreeSize ?e"
      using inv lt by (simp_all add: exchangeLeaves_def)
    have "generateProof wh ?e idx = Inr (proofOf wh (treeLeafNodes ?e) (unat idx))"
      using len' sz lt' by (rule generateProof_proofOf)
    also have "proofOf wh (treeLeafNodes ?e) (unat idx) = proofOf wh (treeLeafNodes t) (unat idx)"
      unfolding exchangeLeaves_def using proofOf_exchange[of k "treeLeafNodes t" "unat idx" wh] that k len
      by simp
    finally have g': "generateProof wh ?e idx = Inr (proofOf wh (leavesOf sh ds) (unat idx))"
      by (simp add: ls)
    have "getNodeHash wh t \<lparr>level = 0, index = 0\<rparr> = Inr (rootOf sh wh ds)"
      using getNodeHash_root[OF len, of wh] ne by (simp add: ls rootOf_def)
    with root have r': "getNodeHash wh ?e \<lparr>level = 0, index = 0\<rparr> = Inr (rootOf sh wh ds)"
      by simp
    have "verifyProof sh wh (rootOf sh wh ds) (proofOf wh (leavesOf sh ds) (unat idx)) (ds ! unat idx)"
      using p(3) by (simp add: verifyProof_def)
    with p(2) g' r' show ?thesis by blast
  qed
  have layouts: "treeLeafNodes ?e \<noteq> treeLeafNodes t"
    if "treeLeafNodes t ! (2 * k) \<noteq> treeLeafNodes t ! (2 * k + 1)"
  proof
    assume "treeLeafNodes ?e = treeLeafNodes t"
    then have "treeLeafNodes ?e ! (2 * k) = treeLeafNodes t ! (2 * k)" by simp
    moreover have "treeLeafNodes ?e ! (2 * k) = treeLeafNodes t ! (2 * k + 1)"
      using k len by (simp add: exchangeLeaves_def)
    ultimately show False using that by simp
  qed
  from inner leaf root proofs layouts show ?thesis
    by (intro conjI allI impI)
qed

theorem exchange_sibling_leaves_witness:
  "addAll exampleStringHash exampleWordHash [''data1'', ''data2'', ''data3''] construct =
     Inr \<lparr>currentRootHash = 887281282, currentTreeSize = 3,
          treeLeafNodes = [295760416, 295760417, 295760418] @ replicate 29 0\<rparr>
   \<and> exchangeLeaves 0 \<lparr>currentRootHash = 887281282, currentTreeSize = 3,
          treeLeafNodes = [295760416, 295760417, 295760418] @ replicate 29 0\<rparr> =
       \<lparr>currentRootHash = 887281282, currentTreeSize = 3,
          treeLeafNodes = [295760417, 295760416, 295760418] @ replicate 29 0\<rparr>
   \<and> getNodeHash exampleWordHash \<lparr>currentRootHash = 887281282, currentTreeSize = 3,
          treeLeafNodes = [295760417, 295760416, 295760418] @ replicate 29 0\<rparr>
        \<lparr>level = 0, index = 0\<rparr> = Inr 887281282
   \<and> generateProof exampleWordHash \<lparr>currentRootHash = 887281282, currentTreeSize = 3,
          treeLeafNodes = [295760417, 295760416, 295760418] @ replicate 29 0\<rparr> 2 =
       generateProof exampleWordHash \<lparr>currentRootHash = 887281282, currentTreeSize = 3,
          treeLeafNodes = [295760416, 295760417, 295760418] @ replicate 29 0\<rparr> 2
   \<and> (\<exists>pf. generateProof exampleWordHash \<lparr>currentRootHash = 887281282, currentTreeSize = 3,
          treeLeafNodes = [295760416, 295760417, 295760418] @ replicate 29 0\<rparr> 2 = Inr pf
         \<and> verifyProof exampleStringHash exampleWordHash 887281282 pf ''data3'')"
proof -
  let ?t = "\<lparr>currentRootHash = 887281282, currentTreeSize = 3,
          treeLeafNodes = [295760416, 295760417, 295760418] @ replicate 29 (0 :: hash_t)\<rparr>"
  let ?e = "\<lparr>currentRootHash = 887281282, currentTreeSize = 3,
          treeLeafNodes = [295760417, 295760416, 295760418] @ replicate 29 (0 :: hash_t)\<rparr>"
  have k: "2 * 0 + 1 < unat treeCapacity"
    by (simp add: treeCapacity_32)
  have e: "exchangeLeaves 0 ?t = ?e"
    by (simp add: exchangeLeaves_def)
  note x = exchange_sibling_leaves[OF example_tree3 k]
  have r0: "getNodeHash exampleWordHash ?t \<lparr>level = 0, index = 0\<rparr> = Inr 887281282"
    using built_tree_root[OF example_tree3] by simp
  from x have "getNodeHash exampleWordHash (exchangeLeaves 0 ?t) \<lparr>level = 0, index = 0\<rparr> =
      getNodeHash exampleWordHash ?t \<lparr>level = 0, index = 0\<rparr>"
    by blast
  then have r: "getNodeHash exampleWordHash ?e \<lparr>level = 0, index = 0\<rparr> = Inr 887281282"
    by (simp only: e r0)
  have i: "(2 :: size_t) < currentTreeSize ?t \<and> unat (2 :: size_t) \<noteq> 2 * 0
      \<and> unat (2 :: size_t) \<noteq> 2 * 0 + 1"
    by simp
  from x i have "\<exists>r pf. generateProof exampleWordHash ?t 2 = Inr pf
             \<and> generateProof exampleWordHash (exchangeLeaves 0 ?t) 2 = Inr pf
             \<and> getNodeHash exampleWordHash (exchangeLeaves 0 ?t) \<lparr>level = 0, index = 0\<rparr> = Inr r
             \<and> verifyProof exampleStringHash exampleWordHash r pf
                  ([''data1'', ''data2'', ''data3''] ! unat (2 :: size_t))"
    by blast
  then obtain pf where pf: "generateProof exampleWordHash ?t 2 = Inr pf"
      "generateProof exampleWordHash ?e 2 = Inr pf"
      "verifyProof exampleStringHash exampleWordHash 887281282 pf
         ([''data1'', ''data2'', ''data3''] ! unat (2 :: size_t))"
    unfolding e using r by auto
  from pf(3) have v: "verifyProof exampleStringHash exampleWordHash 887281282 pf ''data3''"
    by simp
  from pf(1,2) have same: "generateProof exampleWordHash ?e 2 = generateProof exampleWordHash ?t 2"
    by simp
  from pf(1) v have ex: "\<exists>pf. generateProof exampleWordHash ?t 2 = Inr pf
         \<and> verifyProof exampleStringHash exampleWordHash 887281282 pf ''data3''"
    by blast
  from example_tree3 e r same ex show ?thesis
    by (intro conjI)
qed

text \<open>
  The claim C10 as stated fails for the two exchanged leaf nodes themselves: in the tree
  built from three items, the leaf node (5, 0) has the hash of the first item before the
  exchange of positions 0 and 1 and the hash of the second item after it.
\<close>

theorem exchange_leaf_node_counterexample:
  "addAll exampleStringHash exampleWordHash [''data1'', ''data2'', ''data3''] construct =
     Inr \<lparr>currentRootHash = 887281282, currentTreeSize = 3,
          treeLeafNodes = [295760416, 295760417, 295760418] @ replicate 29 0\<rparr>
   \<and> getNodeHash exampleWordHash
        \<lparr>currentRootHash = 887281282, currentTreeSize = 3,
         treeLeafNodes = [295760416, 295760417, 295760418] @ replicate 29 0\<rparr>
        \<lparr>level = 5, index = 0\<rparr> = Inr 295760416
   \<and> getNodeHash exampleWordHash
        (exchangeLeaves 0 \<lparr>currentRootHash = 887281282, currentTreeSize = 3,
           treeLeafNodes = [295760416, 295760417, 295760418] @ replicate 29 0\<rparr>)
        \<lparr>level = 5, index = 0\<rparr> = Inr 295760417"
proof -
  have "getNodeHash exampleWordHash
        \<lparr>currentRootHash = 887281282, currentTreeSize = 3,
         treeLeafNodes = [295760416, 295760417, 295760418] @ replicate 29 0\<rparr>
        \<lparr>level = 5, index = 0\<rparr> = Inr 295760416"
    by (simp add: getNodeHash.simps isLeaf_def treeHeight_def getIndex_def)
  moreover have "getNodeHash exampleWordHash
        (exchangeLeaves 0 \<lparr>currentRootHash = 887281282, currentTreeSize = 3,
           treeLeafNodes = [295760416, 295760417, 295760418] @ replicate 29 0\<rparr>)
        \<lparr>level = 5, index = 0\<rparr> = Inr 295760417"
    by (simp add: getNodeHash.simps isLeaf_def treeHeight_def getIndex_def exchangeLeaves_def)
  ultimately show ?thesis
    using example_tree3 by (intro conjI)
qed

end
